theory Spec2Isabelle
  imports Main
begin

section \<open>Python values\<close>

text \<open>
  Both services build Python dictionaries and hand them to the framework or to the
  \<^verbatim>\<open>json\<close> module. A Python string is a list of characters; a dictionary is an
  association list in insertion order with distinct keys, as Python keeps it.
  Identifiers, dates and timestamps are the objects of \<^verbatim>\<open>uuid\<close> and
  \<^verbatim>\<open>datetime\<close>: a UUID is its 128-bit number, a date is year, month and day, a
  timestamp adds the time of day and an optional offset from UTC in minutes.
\<close>

datatype HairColor = white | brown | black | blonde | red

datatype Countries = mexico | colombia | peru | venezuela | chile | argentina

datatype UUID = UUID nat

record date =
  year :: nat
  month :: nat
  day :: nat

record datetime = date +
  hour :: nat
  minute :: nat
  second :: nat
  microsecond :: nat
  utcoffset :: "int option"

datatype pyval =
    PNone
  | PBool bool
  | PInt int
  | PStr string
  | PList "pyval list"
  | PDict "(string \<times> pyval) list"
  | PUUID UUID
  | PDate date
  | PDateTime datetime
  | PHairColor HairColor
  | PCountries Countries

type_synonym pydict = "(string \<times> pyval) list"

text \<open>\<^verbatim>\<open>d[k] = v\<close>: an existing key keeps its place, a new key goes last.\<close>

fun dict_set :: "pydict \<Rightarrow> string \<Rightarrow> pyval \<Rightarrow> pydict" where
  "dict_set [] k v = [(k, v)]"
| "dict_set ((k', v') # d) k v =
     (if k' = k then (k, v) # d else (k', v') # dict_set d k v)"

text \<open>\<^verbatim>\<open>d.update(e)\<close>: the items of \<open>e\<close> are stored one by one, in order.\<close>

fun dict_update :: "pydict \<Rightarrow> pydict \<Rightarrow> pydict" where
  "dict_update d [] = d"
| "dict_update d ((k, v) # e) = dict_update (dict_set d k v) e"

text \<open>\<^verbatim>\<open>d[k]\<close>, with \<open>None\<close> standing for \<^verbatim>\<open>KeyError\<close>.\<close>

definition dict_get :: "pydict \<Rightarrow> string \<Rightarrow> pyval option" where
  "dict_get d k = map_of d k"

definition dict_keys :: "pydict \<Rightarrow> string list" where
  "dict_keys d = map fst d"

text \<open>The framework's \<^verbatim>\<open>response_model_exclude\<close>: the named keys are dropped.\<close>

definition dict_exclude :: "string list \<Rightarrow> pydict \<Rightarrow> pydict" where
  "dict_exclude ks d = filter (\<lambda>kv. fst kv \<notin> set ks) d"

section \<open>The string of a value\<close>

text \<open>
  \<^verbatim>\<open>str(x)\<close> for the objects the handlers apply it to. A UUID prints as 32
  lower-case hexadecimal digits in groups of 8, 4, 4, 4 and 12 (its number is below
  \<open>2 ^ 128\<close>); a date as \<^verbatim>\<open>YYYY-MM-DD\<close>; a timestamp as the date, a space and
  \<^verbatim>\<open>HH:MM:SS\<close>, followed by the six digits of the microseconds when they are not
  zero and by the offset \<^verbatim>\<open>+HH:MM\<close> when the timestamp has one.
\<close>

definition hex_digit :: "nat \<Rightarrow> char" where
  "hex_digit n = ''0123456789abcdef'' ! (n mod 16)"

definition dec_digit :: "nat \<Rightarrow> char" where
  "dec_digit n = ''0123456789'' ! (n mod 10)"

text \<open>The last \<open>k\<close> digits of \<open>n\<close>, padded with zeros: \<^verbatim>\<open>'%0kx' % n\<close> and \<^verbatim>\<open>'%0kd' % n\<close>.\<close>

fun hex_pad :: "nat \<Rightarrow> nat \<Rightarrow> string" where
  "hex_pad 0 n = []"
| "hex_pad (Suc k) n = hex_pad k (n div 16) @ [hex_digit n]"

fun dec_pad :: "nat \<Rightarrow> nat \<Rightarrow> string" where
  "dec_pad 0 n = []"
| "dec_pad (Suc k) n = dec_pad k (n div 10) @ [dec_digit n]"

fun str_UUID :: "UUID \<Rightarrow> string" where
  "str_UUID (UUID n) =
     (let hex = hex_pad 32 n
      in take 8 hex @ ''-'' @ take 4 (drop 8 hex) @ ''-'' @ take 4 (drop 12 hex) @ ''-'' @
         take 4 (drop 16 hex) @ ''-'' @ drop 20 hex)"

definition str_date :: "'a date_scheme \<Rightarrow> string" where
  "str_date d = dec_pad 4 (year d) @ ''-'' @ dec_pad 2 (month d) @ ''-'' @ dec_pad 2 (day d)"

definition str_utcoffset :: "int \<Rightarrow> string" where
  "str_utcoffset off =
     (if off < 0 then ''-'' else ''+'') @
     dec_pad 2 (nat \<bar>off\<bar> div 60) @ '':'' @ dec_pad 2 (nat \<bar>off\<bar> mod 60)"

definition str_datetime :: "datetime \<Rightarrow> string" where
  "str_datetime t =
     str_date t @ '' '' @
     dec_pad 2 (hour t) @ '':'' @ dec_pad 2 (minute t) @ '':'' @ dec_pad 2 (second t) @
     (if microsecond t = 0 then [] else ''.'' @ dec_pad 6 (microsecond t)) @
     (case utcoffset t of None \<Rightarrow> [] | Some off \<Rightarrow> str_utcoffset off)"

text \<open>The decimal numeral of a natural number and of an integer.\<close>

fun str_nat :: "nat \<Rightarrow> string" where
  "str_nat n = (if n < 10 then [dec_digit n] else str_nat (n div 10) @ [dec_digit n])"

definition str_int :: "int \<Rightarrow> string" where
  "str_int i = (if i < 0 then ''-'' @ str_nat (nat (- i)) else str_nat (nat i))"

text \<open>
  \<^verbatim>\<open>str\<close> itself. The string of a list or of a dictionary is its
  \<^verbatim>\<open>repr\<close>, which no handler takes: the function is left open there.
\<close>

fun py_str :: "pyval \<Rightarrow> string" where
  "py_str PNone = ''None''"
| "py_str (PBool b) = (if b then ''True'' else ''False'')"
| "py_str (PInt i) = str_int i"
| "py_str (PStr s) = s"
| "py_str (PUUID u) = str_UUID u"
| "py_str (PDate d) = str_date d"
| "py_str (PDateTime t) = str_datetime t"

section \<open>Exceptions\<close>

text \<open>
  The exceptions the handlers can meet. \<open>OutsideModel\<close> marks the JSON texts this
  development does not read: numbers with a fraction or an exponent, and characters
  beyond code point 255. It is also what the scanner returns at the end of its bound.
\<close>

datatype exn =
    FileNotFoundError
  | JSONDecodeError
  | AttributeError
  | KeyError
  | TypeError
  | OutsideModel

section \<open>The json module\<close>

text \<open>
  \<^verbatim>\<open>json.dump\<close> and \<^verbatim>\<open>json.load\<close> with their default arguments, on the
  values a JSON text stands for: \<^verbatim>\<open>None\<close>, booleans, integers, strings, lists and
  dictionaries with string keys. A character is one of the 256 code points of
  \<^typ>\<open>char\<close>; the offsets of a file count characters.
\<close>

subsection \<open>Writing\<close>

definition DQUOTE :: char where "DQUOTE = CHR 0x22"
definition BACKSLASH :: char where "BACKSLASH = CHR 0x5C"

text \<open>
  With \<^verbatim>\<open>ensure_ascii\<close>, a character of a string is written as itself when it is
  printable ASCII other than the quote and the backslash; the quote, the backslash and
  the five control characters with a short escape are written with it; any other
  character is written as \<^verbatim>\<open>\u00XX\<close>.
\<close>

definition escape_char :: "char \<Rightarrow> string" where
  "escape_char c =
     (if c = DQUOTE then [BACKSLASH, DQUOTE]
      else if c = BACKSLASH then [BACKSLASH, BACKSLASH]
      else if c = CHR 0x0A then [BACKSLASH, CHR ''n'']
      else if c = CHR 0x0D then [BACKSLASH, CHR ''r'']
      else if c = CHR 0x09 then [BACKSLASH, CHR ''t'']
      else if c = CHR 0x08 then [BACKSLASH, CHR ''b'']
      else if c = CHR 0x0C then [BACKSLASH, CHR ''f'']
      else if 32 \<le> (of_char c :: nat) \<and> (of_char c :: nat) \<le> 126 then [c]
      else [BACKSLASH, CHR ''u''] @ hex_pad 4 (of_char c))"

definition encode_string :: "string \<Rightarrow> string" where
  "encode_string s = [DQUOTE] @ concat (map escape_char s) @ [DQUOTE]"

text \<open>The items of a list or of a dictionary, separated by a comma and a space.\<close>

fun join_items :: "string list \<Rightarrow> string" where
  "join_items [] = []"
| "join_items [x] = x"
| "join_items (x # y # ys) = x @ '', '' @ join_items (y # ys)"

text \<open>
  The values \<^verbatim>\<open>json.dump\<close> can write; on any other object it raises
  \<^verbatim>\<open>TypeError\<close>.
\<close>

primrec json_native :: "pyval \<Rightarrow> bool" where
  "json_native PNone = True"
| "json_native (PBool b) = True"
| "json_native (PInt i) = True"
| "json_native (PStr s) = True"
| "json_native (PList xs) = list_all (\<lambda>b. b) (map json_native xs)"
| "json_native (PDict kvs) = list_all snd (map (map_prod id json_native) kvs)"
| "json_native (PUUID u) = False"
| "json_native (PDate d) = False"
| "json_native (PDateTime t) = False"
| "json_native (PHairColor h) = False"
| "json_native (PCountries c) = False"

primrec encode :: "pyval \<Rightarrow> string" where
  "encode PNone = ''null''"
| "encode (PBool b) = (if b then ''true'' else ''false'')"
| "encode (PInt i) = str_int i"
| "encode (PStr s) = encode_string s"
| "encode (PList xs) = ''['' @ join_items (map encode xs) @ '']''"
| "encode (PDict kvs) =
     ''{'' @
     join_items (map (\<lambda>ke. encode_string (fst ke) @ '': '' @ snd ke)
                   (map (map_prod id encode) kvs)) @
     ''}''"
| "encode (PUUID u) = []"
| "encode (PDate d) = []"
| "encode (PDateTime t) = []"
| "encode (PHairColor h) = []"
| "encode (PCountries c) = []"

definition json_dumps :: "pyval \<Rightarrow> exn + string" where
  "json_dumps v = (if json_native v then Inr (encode v) else Inl TypeError)"

subsection \<open>Reading\<close>

definition is_ws :: "char \<Rightarrow> bool" where
  "is_ws c \<longleftrightarrow> c = CHR '' '' \<or> c = CHR 0x09 \<or> c = CHR 0x0A \<or> c = CHR 0x0D"

definition skip_ws :: "string \<Rightarrow> string" where
  "skip_ws s = dropWhile is_ws s"

definition is_digit :: "char \<Rightarrow> bool" where
  "is_digit c \<longleftrightarrow> 48 \<le> (of_char c :: nat) \<and> (of_char c :: nat) \<le> 57"

definition digit_val :: "char \<Rightarrow> nat" where
  "digit_val c = of_char c - 48"

definition hex_val :: "char \<Rightarrow> nat option" where
  "hex_val c =
     (let n = (of_char c :: nat)
      in if 48 \<le> n \<and> n \<le> 57 then Some (n - 48)
         else if 97 \<le> n \<and> n \<le> 102 then Some (n - 87)
         else if 65 \<le> n \<and> n \<le> 70 then Some (n - 55)
         else None)"

definition hex4 :: "char \<Rightarrow> char \<Rightarrow> char \<Rightarrow> char \<Rightarrow> nat option" where
  "hex4 a b c d =
     (case (hex_val a, hex_val b, hex_val c, hex_val d) of
        (Some w, Some x, Some y, Some z) \<Rightarrow> Some (((w * 16 + x) * 16 + y) * 16 + z)
      | _ \<Rightarrow> None)"

text \<open>The character a short escape stands for.\<close>

definition unescape :: "char \<Rightarrow> char option" where
  "unescape e =
     (if e = DQUOTE then Some DQUOTE
      else if e = BACKSLASH then Some BACKSLASH
      else if e = CHR ''/'' then Some (CHR ''/'')
      else if e = CHR ''b'' then Some (CHR 0x08)
      else if e = CHR ''f'' then Some (CHR 0x0C)
      else if e = CHR ''n'' then Some (CHR 0x0A)
      else if e = CHR ''r'' then Some (CHR 0x0D)
      else if e = CHR ''t'' then Some (CHR 0x09)
      else None)"

definition cons_result :: "char \<Rightarrow> exn + (string \<times> string) \<Rightarrow> exn + (string \<times> string)" where
  "cons_result c r = (case r of Inl e \<Rightarrow> Inl e | Inr (s, rest) \<Rightarrow> Inr (c # s, rest))"

text \<open>
  A string, read from behind its opening quote up to its closing quote. A raw control
  character, a bad escape and a missing closing quote are errors.
\<close>

fun scan_string :: "string \<Rightarrow> exn + (string \<times> string)" where
  "scan_string [] = Inl JSONDecodeError"
| "scan_string (c # s) =
     (if c = DQUOTE then Inr ([], s)
      else if c = BACKSLASH then
        (case s of
           [] \<Rightarrow> Inl JSONDecodeError
         | e # s1 \<Rightarrow>
             if e = CHR ''u'' then
               (case s1 of
                  h1 # h2 # h3 # h4 # s2 \<Rightarrow>
                    (case hex4 h1 h2 h3 h4 of
                       None \<Rightarrow> Inl JSONDecodeError
                     | Some n \<Rightarrow>
                         if n < 256 then cons_result (char_of n) (scan_string s2)
                         else Inl OutsideModel)
                | _ \<Rightarrow> Inl JSONDecodeError)
             else
               (case unescape e of
                  None \<Rightarrow> Inl JSONDecodeError
                | Some x \<Rightarrow> cons_result x (scan_string s1)))
      else if (of_char c :: nat) < 32 then Inl JSONDecodeError
      else cons_result c (scan_string s))"

text \<open>
  A number: an optional minus sign, then a zero or a digit from 1 to 9 followed by
  digits. A fraction or an exponent behind it makes it a float.
\<close>

definition scan_digits :: "string \<Rightarrow> nat \<times> string" where
  "scan_digits s =
     (foldl (\<lambda>n c. 10 * n + digit_val c) 0 (takeWhile is_digit s), dropWhile is_digit s)"

definition float_tail :: "string \<Rightarrow> bool" where
  "float_tail r =
     (case r of
        [] \<Rightarrow> False
      | c # r1 \<Rightarrow>
          if c = CHR ''.'' then (case r1 of [] \<Rightarrow> False | d # _ \<Rightarrow> is_digit d)
          else if c = CHR ''e'' \<or> c = CHR ''E'' then
            (case r1 of
               [] \<Rightarrow> False
             | d # r2 \<Rightarrow>
                 if d = CHR ''+'' \<or> d = CHR ''-''
                 then (case r2 of [] \<Rightarrow> False | x # _ \<Rightarrow> is_digit x)
                 else is_digit d)
          else False)"

definition scan_unsigned :: "string \<Rightarrow> (nat \<times> string) option" where
  "scan_unsigned s =
     (case s of
        [] \<Rightarrow> None
      | c # r \<Rightarrow>
          if c = CHR ''0'' then Some (0, r)
          else if is_digit c then Some (scan_digits s)
          else None)"

definition scan_number :: "string \<Rightarrow> exn + (pyval \<times> string)" where
  "scan_number s =
     (let neg = (case s of [] \<Rightarrow> False | c # _ \<Rightarrow> c = CHR ''-'');
          s1 = (if neg then tl s else s)
      in case scan_unsigned s1 of
           None \<Rightarrow>
             if take 3 s = ''NaN'' \<or> take 8 s = ''Infinity'' \<or> take 9 s = ''-Infinity''
             then Inl OutsideModel else Inl JSONDecodeError
         | Some (n, rest) \<Rightarrow>
             if float_tail rest then Inl OutsideModel
             else Inr (PInt (if neg then - int n else int n), rest))"

text \<open>
  \<^verbatim>\<open>dict(pairs)\<close>: of two pairs with the same key, the later value stands at the
  place of the earlier one.
\<close>

definition dict_of_pairs :: "(string \<times> pyval) list \<Rightarrow> pydict" where
  "dict_of_pairs ps = foldl (\<lambda>d kv. dict_set d (fst kv) (snd kv)) [] ps"

text \<open>
  The scanner. \<open>scan_once\<close> reads one value at the head of the text;
  \<open>scan_array\<close> reads the items of a list from its first item to the closing
  bracket; \<open>scan_object\<close> reads the pairs of a dictionary from behind the opening
  quote of a key to the closing brace. Each returns what it read and the rest of the
  text. The first argument bounds the depth of the calls; a text of \<open>n\<close> characters
  is read with the bound \<open>2 * n + 2\<close>, which is never reached: a larger bound gives
  the same result (lemma \<open>json_loads_fuel\<close>).
\<close>

fun scan_once :: "nat \<Rightarrow> string \<Rightarrow> exn + (pyval \<times> string)"
and scan_array :: "nat \<Rightarrow> string \<Rightarrow> exn + (pyval list \<times> string)"
and scan_object :: "nat \<Rightarrow> string \<Rightarrow> exn + ((string \<times> pyval) list \<times> string)"
where
  "scan_once 0 s = Inl OutsideModel"
| "scan_once (Suc n) s =
     (case s of
        [] \<Rightarrow> Inl JSONDecodeError
      | c # r \<Rightarrow>
          if c = DQUOTE then
            (case scan_string r of Inl e \<Rightarrow> Inl e | Inr (x, rest) \<Rightarrow> Inr (PStr x, rest))
          else if c = CHR ''{'' then
            (case skip_ws r of
               [] \<Rightarrow> Inl JSONDecodeError
             | c1 # r1 \<Rightarrow>
                 if c1 = CHR ''}'' then Inr (PDict [], r1)
                 else if c1 = DQUOTE then
                   (case scan_object n r1 of
                      Inl e \<Rightarrow> Inl e
                    | Inr (ps, rest) \<Rightarrow> Inr (PDict (dict_of_pairs ps), rest))
                 else Inl JSONDecodeError)
          else if c = CHR ''['' then
            (case skip_ws r of
               [] \<Rightarrow> Inl JSONDecodeError
             | c1 # r1 \<Rightarrow>
                 if c1 = CHR '']'' then Inr (PList [], r1)
                 else
                   (case scan_array n (c1 # r1) of
                      Inl e \<Rightarrow> Inl e
                    | Inr (xs, rest) \<Rightarrow> Inr (PList xs, rest)))
          else if take 4 s = ''null'' then Inr (PNone, drop 4 s)
          else if take 4 s = ''true'' then Inr (PBool True, drop 4 s)
          else if take 5 s = ''false'' then Inr (PBool False, drop 5 s)
          else scan_number s)"
| "scan_array 0 s = Inl OutsideModel"
| "scan_array (Suc n) s =
     (case scan_once n s of
        Inl e \<Rightarrow> Inl e
      | Inr (x, rest) \<Rightarrow>
          (case skip_ws rest of
             [] \<Rightarrow> Inl JSONDecodeError
           | c # r \<Rightarrow>
               if c = CHR '']'' then Inr ([x], r)
               else if c = CHR '','' then
                 (case scan_array n (skip_ws r) of
                    Inl e \<Rightarrow> Inl e
                  | Inr (xs, rest1) \<Rightarrow> Inr (x # xs, rest1))
               else Inl JSONDecodeError))"
| "scan_object 0 s = Inl OutsideModel"
| "scan_object (Suc n) s =
     (case scan_string s of
        Inl e \<Rightarrow> Inl e
      | Inr (k, rest) \<Rightarrow>
          (case skip_ws rest of
             [] \<Rightarrow> Inl JSONDecodeError
           | c # r \<Rightarrow>
               if c \<noteq> CHR '':'' then Inl JSONDecodeError
               else
                 (case scan_once n (skip_ws r) of
                    Inl e \<Rightarrow> Inl e
                  | Inr (v, rest1) \<Rightarrow>
                      (case skip_ws rest1 of
                         [] \<Rightarrow> Inl JSONDecodeError
                       | c1 # r1 \<Rightarrow>
                           if c1 = CHR ''}'' then Inr ([(k, v)], r1)
                           else if c1 = CHR '','' then
                             (case skip_ws r1 of
                                [] \<Rightarrow> Inl JSONDecodeError
                              | c2 # r2 \<Rightarrow>
                                  if c2 \<noteq> DQUOTE then Inl JSONDecodeError
                                  else
                                    (case scan_object n r2 of
                                       Inl e \<Rightarrow> Inl e
                                     | Inr (ps, rest2) \<Rightarrow> Inr ((k, v) # ps, rest2)))
                           else Inl JSONDecodeError))))"

text \<open>
  \<^verbatim>\<open>json.loads\<close>: white space, one value, white space, and nothing behind it.
\<close>

definition json_loads :: "string \<Rightarrow> exn + pyval" where
  "json_loads s =
     (case scan_once (2 * length s + 2) (skip_ws s) of
        Inl e \<Rightarrow> Inl e
      | Inr (v, rest) \<Rightarrow> if skip_ws rest = [] then Inr v else Inl JSONDecodeError)"

section \<open>What a request comes to\<close>

text \<open>
  A request is either rejected by the validation layer before the handler is called
  (status 422), or the handler runs and raises an \<^verbatim>\<open>HTTPException\<close> with a status
  and a detail, or it returns a value that goes to the route's response model under the
  declared status, or it ends in an exception that nothing catches.
\<close>

datatype 'a response =
    ValidationError
  | HTTPException nat string
  | Returned nat 'a
  | Unhandled exn

definition HTTP_200_OK :: nat where "HTTP_200_OK = 200"
definition HTTP_201_CREATED :: nat where "HTTP_201_CREATED = 201"
definition HTTP_404_NOT_FOUND :: nat where "HTTP_404_NOT_FOUND = 404"
definition HTTP_501_NOT_IMPLEMENTED :: nat where "HTTP_501_NOT_IMPLEMENTED = 501"

section \<open>The tutorial service (FastAPI/main.py)\<close>

subsection \<open>Models\<close>

text \<open>
  The fields of \<^verbatim>\<open>Person\<close> and \<^verbatim>\<open>Location\<close> carry the prefix \<open>p_\<close> and
  \<open>l_\<close>: the users of the other service have fields of the same names.
\<close>

record Person =
  p_first_name :: string
  p_last_name :: string
  p_age :: int
  p_hair_color :: "HairColor option"
  p_is_married :: "bool option"
  p_password :: string

record Location =
  l_city :: string
  l_state :: string
  l_country :: Countries

text \<open>The constraints the \<^verbatim>\<open>Field\<close> declarations put on a \<^verbatim>\<open>Person\<close>.\<close>

definition valid_Person :: "Person \<Rightarrow> bool" where
  "valid_Person p \<longleftrightarrow>
     1 \<le> length (p_first_name p) \<and> length (p_first_name p) \<le> 50 \<and>
     1 \<le> length (p_last_name p) \<and> length (p_last_name p) \<le> 50 \<and>
     0 < p_age p \<and> p_age p \<le> 120 \<and>
     8 \<le> length (p_password p)"

definition valid_Location :: "Location \<Rightarrow> bool" where
  "valid_Location l \<longleftrightarrow>
     1 \<le> length (l_city l) \<and> length (l_city l) \<le> 50 \<and>
     1 \<le> length (l_state l) \<and> length (l_state l) \<le> 50"

definition opt_val :: "('a \<Rightarrow> pyval) \<Rightarrow> 'a option \<Rightarrow> pyval" where
  "opt_val f x = (case x of None \<Rightarrow> PNone | Some y \<Rightarrow> f y)"

text \<open>\<^verbatim>\<open>person.dict()\<close> and \<^verbatim>\<open>location.dict()\<close>, fields in declaration order.\<close>

definition Person_dict :: "Person \<Rightarrow> pydict" where
  "Person_dict p =
     [(''first_name'', PStr (p_first_name p)),
      (''last_name'', PStr (p_last_name p)),
      (''age'', PInt (p_age p)),
      (''hair_color'', opt_val PHairColor (p_hair_color p)),
      (''is_married'', opt_val PBool (p_is_married p)),
      (''password'', PStr (p_password p))]"

definition Location_dict :: "Location \<Rightarrow> pydict" where
  "Location_dict l =
     [(''city'', PStr (l_city l)),
      (''state'', PStr (l_state l)),
      (''country'', PCountries (l_country l))]"

subsection \<open>POST /person/new\<close>

definition create_person :: "Person \<Rightarrow> Person" where
  "create_person user = user"

text \<open>
  The route: the body is validated, the handler runs, and its result is sent through
  \<^verbatim>\<open>response_model=Person\<close> with \<^verbatim>\<open>response_model_exclude={"password"}\<close>.
\<close>

definition create_person_route :: "Person \<Rightarrow> pydict response" where
  "create_person_route user =
     (if \<not> valid_Person user then ValidationError
      else Returned HTTP_201_CREATED
             (dict_exclude [''password''] (Person_dict (create_person user))))"

subsection \<open>GET /person/detail\<close>

text \<open>
  The handler returns \<^verbatim>\<open>{name: age}\<close>, a dictionary of one item whose key is the
  name or \<^verbatim>\<open>None\<close>.
\<close>

definition show_person :: "string option \<Rightarrow> int \<Rightarrow> (string option \<times> int) list" where
  "show_person name age = [(name, age)]"

text \<open>
  The query parameters: \<open>name\<close> is optional and, when given, of 1 to 50 characters;
  \<open>age\<close> is required (\<open>None\<close> is a request without it) and has no other constraint.
\<close>

definition show_person_route ::
  "string option \<Rightarrow> int option \<Rightarrow> (string option \<times> int) list response" where
  "show_person_route name age =
     (case age of
        None \<Rightarrow> ValidationError
      | Some a \<Rightarrow>
          (case name of
             None \<Rightarrow> Returned HTTP_200_OK (show_person None a)
           | Some n \<Rightarrow>
               if 1 \<le> length n \<and> length n \<le> 50
               then Returned HTTP_200_OK (show_person (Some n) a)
               else ValidationError))"

subsection \<open>GET /person/detail/{person_id}\<close>

definition persons :: "int list" where
  "persons = [1, 2, 3, 4, 5]"

text \<open>The second handler of the name \<^verbatim>\<open>show_person\<close>, registered on its own path.\<close>

definition show_person_by_id :: "int \<Rightarrow> (int \<times> string) list response" where
  "show_person_by_id person_id =
     (if person_id \<notin> set persons
      then HTTPException HTTP_404_NOT_FOUND ''This person doesn't exist!!!''
      else Returned HTTP_200_OK [(person_id, ''It exists!'')])"

text \<open>The path parameter is declared with \<^verbatim>\<open>gt=0\<close>.\<close>

definition show_person_by_id_route :: "int \<Rightarrow> (int \<times> string) list response" where
  "show_person_by_id_route person_id =
     (if \<not> 0 < person_id then ValidationError else show_person_by_id person_id)"

subsection \<open>PUT /person/{person_id}\<close>

definition update_person :: "int \<Rightarrow> Person \<Rightarrow> Location \<Rightarrow> pydict" where
  "update_person person_id person location =
     (let results = [(''id'', PInt person_id)];
          results = dict_update results (Person_dict person);
          results = dict_update results (Location_dict location)
      in results)"

text \<open>The route declares no response model: the dictionary is sent as it is.\<close>

definition update_person_route :: "int \<Rightarrow> Person \<Rightarrow> Location \<Rightarrow> pydict response" where
  "update_person_route person_id person location =
     (if \<not> 0 < person_id \<or> \<not> valid_Person person \<or> \<not> valid_Location location
      then ValidationError
      else Returned HTTP_200_OK (update_person person_id person location))"


section \<open>The tweets service (FastAPI/twitter-api-fastapi/main.py)\<close>

subsection \<open>Models\<close>

record UserBase =
  user_id :: UUID
  email :: string

record User = UserBase +
  first_name :: string
  last_name :: string
  birth_date :: "date option"

record UserRegister = User +
  password :: string

text \<open>The field \<^verbatim>\<open>by\<close> of a tweet is named \<open>tweet_by\<close> here.\<close>

record Tweet =
  tweet_id :: UUID
  content :: string
  created_at :: datetime
  updated_at :: "datetime option"
  tweet_by :: User

text \<open>
  The module, once it is loaded. The class body of \<^verbatim>\<open>Tweet\<close> runs
  \<^verbatim>\<open>Field(default=datetime.now())\<close> as the module is loaded: the clock is read there,
  and the schema keeps the value it gave.
\<close>

record module =
  Tweet_created_at_default :: datetime

definition load_module :: "datetime \<Rightarrow> module" where
  "load_module now = \<lparr>Tweet_created_at_default = now\<rparr>"

text \<open>
  The body of a request to POST /post, its fields parsed: \<^verbatim>\<open>created_at\<close> and
  \<^verbatim>\<open>updated_at\<close> may be absent. The model is built from it with the defaults of
  the schema.
\<close>

record Tweet_payload =
  in_tweet_id :: UUID
  in_content :: string
  in_created_at :: "datetime option"
  in_updated_at :: "datetime option"
  in_by :: User

definition Tweet_of_payload :: "module \<Rightarrow> Tweet_payload \<Rightarrow> Tweet" where
  "Tweet_of_payload m p =
     \<lparr>tweet_id = in_tweet_id p,
      content = in_content p,
      created_at = (case in_created_at p of None \<Rightarrow> Tweet_created_at_default m | Some t \<Rightarrow> t),
      updated_at = in_updated_at p,
      tweet_by = in_by p\<rparr>"

text \<open>The constraints of the \<^verbatim>\<open>Field\<close> declarations.\<close>

definition valid_User :: "'a User_scheme \<Rightarrow> bool" where
  "valid_User u \<longleftrightarrow>
     1 \<le> length (first_name u) \<and> length (first_name u) \<le> 50 \<and>
     1 \<le> length (last_name u) \<and> length (last_name u) \<le> 50"


definition valid_Tweet :: "Tweet \<Rightarrow> bool" where
  "valid_Tweet t \<longleftrightarrow>
     1 \<le> length (content t) \<and> length (content t) \<le> 256 \<and> valid_User (tweet_by t)"

text \<open>\<^verbatim>\<open>.dict()\<close>: the fields in declaration order, inherited fields first.\<close>

definition User_dict :: "'a User_scheme \<Rightarrow> pydict" where
  "User_dict u =
     [(''user_id'', PUUID (user_id u)),
      (''email'', PStr (email u)),
      (''first_name'', PStr (first_name u)),
      (''last_name'', PStr (last_name u)),
      (''birth_date'', opt_val PDate (birth_date u))]"


definition Tweet_dict :: "Tweet \<Rightarrow> pydict" where
  "Tweet_dict t =
     [(''tweet_id'', PUUID (tweet_id t)),
      (''content'', PStr (content t)),
      (''created_at'', PDateTime (created_at t)),
      (''updated_at'', opt_val PDateTime (updated_at t)),
      (''by'', PDict (User_dict (tweet_by t)))]"

text \<open>\<^verbatim>\<open>response_model=User\<close> on a \<^verbatim>\<open>UserRegister\<close>: the fields of a user.\<close>

definition User_of :: "UserRegister \<Rightarrow> User" where
  "User_of u =
     \<lparr>user_id = user_id u, email = email u, first_name = first_name u,
      last_name = last_name u, birth_date = birth_date u\<rparr>"

subsection \<open>Files\<close>

text \<open>
  The directory maps a file name to the text of the file. An open file is its text and
  the offset of the next read or write. Reading takes the text from the offset to the
  end; writing replaces the text from the offset on, character by character, and
  lengthens the file when it reaches the end: what lies behind the written text stays.
  Closing stores the text under the name.
\<close>

type_synonym fs = "string \<Rightarrow> string option"

record text_file =
  contents :: string
  pos :: nat

definition f_read :: "text_file \<Rightarrow> text_file \<times> string" where
  "f_read f = (f\<lparr>pos := max (pos f) (length (contents f))\<rparr>, drop (pos f) (contents f))"

definition f_seek :: "text_file \<Rightarrow> nat \<Rightarrow> text_file" where
  "f_seek f n = f\<lparr>pos := n\<rparr>"

definition f_write :: "text_file \<Rightarrow> string \<Rightarrow> text_file" where
  "f_write f s =
     f\<lparr>contents :=
         take (pos f) (contents f) @ replicate (pos f - length (contents f)) (CHR 0x00) @
         s @ drop (pos f + length s) (contents f),
       pos := pos f + length s\<rparr>"

text \<open>
  \<^verbatim>\<open>with open(name, mode) as f: body\<close>, for the modes \<^verbatim>\<open>r\<close> and
  \<^verbatim>\<open>r+\<close>: a missing file raises, and the file is closed however the body ends.
\<close>

definition with_open ::
  "fs \<Rightarrow> string \<Rightarrow> (text_file \<Rightarrow> text_file \<times> (exn + 'a)) \<Rightarrow> fs \<times> (exn + 'a)" where
  "with_open files name body =
     (case files name of
        None \<Rightarrow> (files, Inl FileNotFoundError)
      | Some text \<Rightarrow>
          (case body \<lparr>contents = text, pos = 0\<rparr> of
             (f, r) \<Rightarrow> (files(name \<mapsto> contents f), r)))"

definition json_load :: "text_file \<Rightarrow> text_file \<times> (exn + pyval)" where
  "json_load f = (case f_read f of (f1, text) \<Rightarrow> (f1, json_loads text))"

text \<open>
  \<^verbatim>\<open>json.dump(v, f)\<close>. The handlers dump native values only, where the whole text
  is written.
\<close>

definition json_dump :: "pyval \<Rightarrow> text_file \<Rightarrow> text_file \<times> (exn + unit)" where
  "json_dump v f =
     (case json_dumps v of
        Inl e \<Rightarrow> (f, Inl e)
      | Inr text \<Rightarrow> (f_write f text, Inr ()))"

subsection \<open>Statements of the handlers\<close>

text \<open>\<^verbatim>\<open>d[k] = str(d[k])\<close>.\<close>

definition str_item :: "pydict \<Rightarrow> string \<Rightarrow> exn + pydict" where
  "str_item d k =
     (case dict_get d k of
        None \<Rightarrow> Inl KeyError
      | Some v \<Rightarrow> Inr (dict_set d k (PStr (py_str v))))"

text \<open>\<^verbatim>\<open>d[k1][k2] = str(d[k1][k2])\<close>, where \<^verbatim>\<open>d[k1]\<close> is a dictionary held by \<open>d\<close> alone.\<close>

definition str_item_in :: "pydict \<Rightarrow> string \<Rightarrow> string \<Rightarrow> exn + pydict" where
  "str_item_in d k1 k2 =
     (case dict_get d k1 of
        None \<Rightarrow> Inl KeyError
      | Some (PDict inner) \<Rightarrow>
          (case str_item inner k2 of
             Inl e \<Rightarrow> Inl e
           | Inr inner1 \<Rightarrow> Inr (dict_set d k1 (PDict inner1)))
      | Some _ \<Rightarrow> Inl TypeError)"

text \<open>\<^verbatim>\<open>results.append(x)\<close>: only a list has the method.\<close>

definition list_append :: "pyval \<Rightarrow> pyval \<Rightarrow> exn + pyval" where
  "list_append results x =
     (case results of
        PList xs \<Rightarrow> Inr (PList (xs @ [x]))
      | _ \<Rightarrow> Inl AttributeError)"

definition and_then :: "exn + 'a \<Rightarrow> ('a \<Rightarrow> exn + 'b) \<Rightarrow> exn + 'b" where
  "and_then r g = (case r of Inl e \<Rightarrow> Inl e | Inr x \<Rightarrow> g x)"

subsection \<open>POST /signup\<close>




subsection \<open>GET /users\<close>

definition show_all_users :: "fs \<Rightarrow> fs \<times> (exn + pyval)" where
  "show_all_users files = with_open files ''users.json'' json_load"

subsection \<open>GET /\<close>


subsection \<open>POST /post\<close>

definition post_body :: "Tweet \<Rightarrow> text_file \<Rightarrow> text_file \<times> (exn + Tweet)" where
  "post_body tweet f =
     (case json_load f of
        (f, Inl e) \<Rightarrow> (f, Inl e)
      | (f, Inr results) \<Rightarrow>
          (case and_then (str_item (Tweet_dict tweet) ''tweet_id'')
                  (\<lambda>tweet_dict. and_then (str_item tweet_dict ''created_at'')
                  (\<lambda>tweet_dict. and_then (str_item tweet_dict ''updated_at'')
                  (\<lambda>tweet_dict. and_then (str_item_in tweet_dict ''by'' ''user_id'')
                  (\<lambda>tweet_dict. str_item_in tweet_dict ''by'' ''birth_date'')))) of
             Inl e \<Rightarrow> (f, Inl e)
           | Inr tweet_dict \<Rightarrow>
               (case list_append results (PDict tweet_dict) of
                  Inl e \<Rightarrow> (f, Inl e)
                | Inr results \<Rightarrow>
                    (case json_dump results (f_seek f 0) of
                       (f, Inl e) \<Rightarrow> (f, Inl e)
                     | (f, Inr u) \<Rightarrow> (f, Inr tweet)))))"

definition post :: "fs \<Rightarrow> Tweet \<Rightarrow> fs \<times> (exn + Tweet)" where
  "post files tweet = with_open files ''tweets.json'' (post_body tweet)"

definition post_route :: "module \<Rightarrow> fs \<Rightarrow> Tweet_payload option \<Rightarrow> fs \<times> Tweet response" where
  "post_route m files body =
     (case body of
        None \<Rightarrow> (files, ValidationError)
      | Some p \<Rightarrow>
          if \<not> valid_Tweet (Tweet_of_payload m p) then (files, ValidationError)
          else
            (case post files (Tweet_of_payload m p) of
               (files1, Inl e) \<Rightarrow> (files1, Unhandled e)
             | (files1, Inr t) \<Rightarrow> (files1, Returned HTTP_201_CREATED t)))"

subsection \<open>The handlers without a body\<close>

text \<open>
  Seven handlers consist of \<^verbatim>\<open>pass\<close>: they take no argument and return
  \<^verbatim>\<open>None\<close>. The source names the handler of PUT /users/{user_id}/update
  \<^verbatim>\<open>delete_a_user\<close> as well; it is \<open>delete_a_user_2\<close> here.
\<close>

definition login :: "unit \<Rightarrow> pyval" where "login u = PNone"
definition show_a_user :: "unit \<Rightarrow> pyval" where "show_a_user u = PNone"
definition delete_a_user :: "unit \<Rightarrow> pyval" where "delete_a_user u = PNone"
definition delete_a_user_2 :: "unit \<Rightarrow> pyval" where "delete_a_user_2 u = PNone"
definition show_a_tweet :: "unit \<Rightarrow> pyval" where "show_a_tweet u = PNone"
definition delete_a_tweet :: "unit \<Rightarrow> pyval" where "delete_a_tweet u = PNone"
definition update_a_tweet :: "unit \<Rightarrow> pyval" where "update_a_tweet u = PNone"

text \<open>What the decorator of a route declares, and the handler it registers.\<close>

record route =
  r_method :: string
  r_path :: string
  r_response_model :: string
  r_status_code :: nat
  r_handler :: "unit \<Rightarrow> pyval"

definition stub_routes :: "route list" where
  "stub_routes =
     [\<lparr>r_method = ''POST'', r_path = ''/login'', r_response_model = ''User'',
       r_status_code = HTTP_200_OK, r_handler = login\<rparr>,
      \<lparr>r_method = ''GET'', r_path = ''/users/{user_id}'', r_response_model = ''User'',
       r_status_code = HTTP_200_OK, r_handler = show_a_user\<rparr>,
      \<lparr>r_method = ''DELETE'', r_path = ''/users/{user_id}/delete'', r_response_model = ''User'',
       r_status_code = HTTP_200_OK, r_handler = delete_a_user\<rparr>,
      \<lparr>r_method = ''PUT'', r_path = ''/users/{user_id}/update'', r_response_model = ''User'',
       r_status_code = HTTP_200_OK, r_handler = delete_a_user_2\<rparr>,
      \<lparr>r_method = ''GET'', r_path = ''/tweets/{tweet_id}'', r_response_model = ''Tweet'',
       r_status_code = HTTP_200_OK, r_handler = show_a_tweet\<rparr>,
      \<lparr>r_method = ''DELETE'', r_path = ''/tweets/{tweet_id}/delete'', r_response_model = ''Tweet'',
       r_status_code = HTTP_200_OK, r_handler = delete_a_tweet\<rparr>,
      \<lparr>r_method = ''PUT'', r_path = ''/tweets/{tweet_id}/update'', r_response_model = ''Tweet'',
       r_status_code = HTTP_200_OK, r_handler = update_a_tweet\<rparr>]"

text \<open>
  A request to such a route: there is nothing to validate, the handler runs, and what it
  returns goes to the response model under the declared status.
\<close>

definition call_route :: "route \<Rightarrow> pyval response" where
  "call_route r = Returned (r_status_code r) (r_handler r ())"

text \<open>A response that says "not implemented": one with status 501.\<close>

definition not_implemented :: "'a response \<Rightarrow> bool" where
  "not_implemented r =
     (case r of
        HTTPException s d \<Rightarrow> s = HTTP_501_NOT_IMPLEMENTED
      | Returned s v \<Rightarrow> s = HTTP_501_NOT_IMPLEMENTED
      | _ \<Rightarrow> False)"

section \<open>What the store is to hold\<close>

text \<open>
  The record of a user and of a tweet as the specification describes it: the identifier
  and every date and timestamp as strings, in a tweet also the identifier and the birth
  date of the author. The string of an absent date or timestamp is that of
  \<^verbatim>\<open>None\<close>.
\<close>

definition str_opt_date :: "date option \<Rightarrow> string" where
  "str_opt_date d = (case d of None \<Rightarrow> ''None'' | Some x \<Rightarrow> str_date x)"


definition stored_author :: "'a User_scheme \<Rightarrow> pydict" where
  "stored_author u =
     [(''user_id'', PStr (str_UUID (user_id u))),
      (''email'', PStr (email u)),
      (''first_name'', PStr (first_name u)),
      (''last_name'', PStr (last_name u)),
      (''birth_date'', PStr (str_opt_date (birth_date u)))]"

definition stored_user :: "UserRegister \<Rightarrow> pydict" where
  "stored_user u = stored_author u @ [(''password'', PStr (password u))]"



section \<open>Texts that json.dump writes\<close>

text \<open>
  The values that come back from a text as they went into it: native values whose
  dictionaries have no key twice.
\<close>

primrec json_wf :: "pyval \<Rightarrow> bool" where
  "json_wf PNone = True"
| "json_wf (PBool b) = True"
| "json_wf (PInt i) = True"
| "json_wf (PStr s) = True"
| "json_wf (PList xs) = list_all (\<lambda>b. b) (map json_wf xs)"
| "json_wf (PDict kvs) =
     (distinct (map fst kvs) \<and> list_all snd (map (map_prod id json_wf) kvs))"
| "json_wf (PUUID u) = False"
| "json_wf (PDate d) = False"
| "json_wf (PDateTime t) = False"
| "json_wf (PHairColor h) = False"
| "json_wf (PCountries c) = False"

text \<open>The text of one item of a dictionary.\<close>

definition encode_item :: "string \<times> pyval \<Rightarrow> string" where
  "encode_item kv = encode_string (fst kv) @ '': '' @ encode (snd kv)"

text \<open>
  Where a value may end inside a list or a dictionary, and how the text of a value starts:
  not with white space and not with a closing bracket.
\<close>

definition value_end :: "string \<Rightarrow> bool" where
  "value_end rest =
     (case rest of [] \<Rightarrow> True | c # r \<Rightarrow> c = CHR '','' \<or> c = CHR '']'' \<or> c = CHR ''}'')"

definition starts_value :: "string \<Rightarrow> bool" where
  "starts_value t = (case t of [] \<Rightarrow> False | c # r \<Rightarrow> \<not> is_ws c \<and> c \<noteq> CHR '']'')"

section \<open>A sample of requests\<close>

definition sample_user :: UserRegister where
  "sample_user =
     \<lparr>user_id = UUID 5, email = ''ana@example.com'', first_name = ''Ana'',
      last_name = ''Li'', birth_date = None, password = ''12345678''\<rparr>"

definition sample_time :: datetime where
  "sample_time =
     \<lparr>year = 2022, month = 3, day = 4, hour = 5, minute = 6, second = 7,
      microsecond = 0, utcoffset = None\<rparr>"

definition sample_payload :: Tweet_payload where
  "sample_payload =
     \<lparr>in_tweet_id = UUID 7, in_content = ''hola'', in_created_at = None,
      in_updated_at = None, in_by = User_of sample_user\<rparr>"




section \<open>Properties of the tutorial service\<close>

lemma dict_set_fresh: "k \<notin> fst ` set d \<Longrightarrow> dict_set d k v = d @ [(k, v)]"
  by (induction d) auto

text \<open>
  C3. For every Person payload that satisfies the field constraints, POST /person/new
  answers with status 201 and the same field values, in the same order, except that the
  password is absent: the body has the five other keys, each with the value the
  payload's dictionary has under it, and no key \<open>password\<close>.
\<close>

theorem create_person_route_excludes_password:
  assumes "valid_Person user"
  shows "create_person_route user =
           Returned HTTP_201_CREATED
             [(''first_name'', PStr (p_first_name user)),
              (''last_name'', PStr (p_last_name user)),
              (''age'', PInt (p_age user)),
              (''hair_color'', opt_val PHairColor (p_hair_color user)),
              (''is_married'', opt_val PBool (p_is_married user))]
         \<and> (\<forall>body. create_person_route user = Returned HTTP_201_CREATED body \<longrightarrow>
               dict_get body ''password'' = None \<and>
               (\<forall>k. k \<noteq> ''password'' \<longrightarrow> dict_get body k = dict_get (Person_dict user) k))"
proof -
  have r: "create_person_route user =
             Returned HTTP_201_CREATED (dict_exclude [''password''] (Person_dict user))"
    using assms by (simp add: create_person_route_def create_person_def)
  have e: "dict_exclude [''password''] (Person_dict user) =
             [(''first_name'', PStr (p_first_name user)),
              (''last_name'', PStr (p_last_name user)),
              (''age'', PInt (p_age user)),
              (''hair_color'', opt_val PHairColor (p_hair_color user)),
              (''is_married'', opt_val PBool (p_is_married user))]"
    by (simp add: dict_exclude_def Person_dict_def)
  have g: "dict_get (dict_exclude [''password''] (Person_dict user)) ''password'' = None"
    by (simp add: e dict_get_def)
  have k: "k \<noteq> ''password'' \<Longrightarrow>
             dict_get (dict_exclude [''password''] (Person_dict user)) k =
             dict_get (Person_dict user) k" for k
    by (simp add: e dict_get_def) (simp add: Person_dict_def)
  show ?thesis
    using r e g k by simp
qed

theorem create_person_route_excludes_password_witness:
  "valid_Person
     \<lparr>p_first_name = ''Alejandro'', p_last_name = ''Martinez'', p_age = 30,
      p_hair_color = Some black, p_is_married = Some True,
      p_password = ''HolaSoyAlejandro123''\<rparr>
   \<and> create_person_route
       \<lparr>p_first_name = ''Alejandro'', p_last_name = ''Martinez'', p_age = 30,
        p_hair_color = Some black, p_is_married = Some True,
        p_password = ''HolaSoyAlejandro123''\<rparr> =
     Returned HTTP_201_CREATED
       [(''first_name'', PStr ''Alejandro''), (''last_name'', PStr ''Martinez''),
        (''age'', PInt 30), (''hair_color'', PHairColor black),
        (''is_married'', PBool True)]"
proof -
  have v: "valid_Person
     \<lparr>p_first_name = ''Alejandro'', p_last_name = ''Martinez'', p_age = 30,
      p_hair_color = Some black, p_is_married = Some True,
      p_password = ''HolaSoyAlejandro123''\<rparr>"
    by (simp add: valid_Person_def)
  show ?thesis
    using v create_person_route_excludes_password [OF v] by (simp add: opt_val_def)
qed

text \<open>
  C4, as claimed: every age outside (0, 120] is rejected by person creation and by the
  detail query alike. The detail query declares no range for its age parameter: the age
  500 reaches the handler and is returned.
\<close>

theorem show_person_route_age_counterexample:
  "\<not> (\<forall>name age. \<not> (0 < age \<and> age \<le> 120) \<longrightarrow>
         show_person_route name (Some age) = ValidationError)"
proof
  assume "\<forall>name age. \<not> (0 < age \<and> age \<le> 120) \<longrightarrow>
            show_person_route name (Some age) = ValidationError"
  then have "show_person_route None (Some 500) = ValidationError"
    by simp
  then show False
    by (simp add: show_person_route_def)
qed

text \<open>
  C4, amended. For every age outside (0, 120], person creation is rejected with a
  validation error before the handler runs. The detail query requires the age and puts
  no range on it: without an age the request is rejected, and with any integer age and a
  name that is absent or of 1 to 50 characters the handler runs and answers
  \<open>{name: age}\<close> with status 200.
\<close>

theorem age_validation:
  assumes "\<not> (0 < p_age user \<and> p_age user \<le> 120)"
  shows "create_person_route user = ValidationError
         \<and> show_person_route name None = ValidationError
         \<and> show_person_route None (Some (p_age user)) =
             Returned HTTP_200_OK [(None, p_age user)]
         \<and> (\<forall>n. 1 \<le> length n \<and> length n \<le> 50 \<longrightarrow>
               show_person_route (Some n) (Some (p_age user)) =
                 Returned HTTP_200_OK [(Some n, p_age user)])"
  using assms
  by (auto simp add: create_person_route_def valid_Person_def show_person_route_def
      show_person_def)

theorem age_validation_witness:
  "\<not> (0 < p_age
         \<lparr>p_first_name = ''Daniel'', p_last_name = ''Lopez'', p_age = 121,
          p_hair_color = None, p_is_married = None, p_password = ''12345678''\<rparr>
       \<and> p_age
         \<lparr>p_first_name = ''Daniel'', p_last_name = ''Lopez'', p_age = 121,
          p_hair_color = None, p_is_married = None, p_password = ''12345678''\<rparr> \<le> 120)
   \<and> create_person_route
       \<lparr>p_first_name = ''Daniel'', p_last_name = ''Lopez'', p_age = 121,
        p_hair_color = None, p_is_married = None, p_password = ''12345678''\<rparr> =
     ValidationError
   \<and> show_person_route (Some ''Daniel'') (Some 121) =
     Returned HTTP_200_OK [(Some ''Daniel'', 121)]"
  using age_validation [of
      "\<lparr>p_first_name = ''Daniel'', p_last_name = ''Lopez'', p_age = 121,
        p_hair_color = None, p_is_married = None, p_password = ''12345678''\<rparr>" None]
  by simp

text \<open>
  C5, as claimed: every person_id outside {1,2,3,4,5} is answered with not-found. The
  path parameter is declared greater than zero, so the id 0 is rejected by validation
  and never looked up.
\<close>

theorem show_person_by_id_counterexample:
  "(0::int) \<notin> {1, 2, 3, 4, 5}
   \<and> show_person_by_id_route 0 = ValidationError
   \<and> show_person_by_id_route 0 \<noteq>
       HTTPException HTTP_404_NOT_FOUND ''This person doesn't exist!!!''"
  by (simp add: show_person_by_id_route_def)

text \<open>
  C5, amended. For every person_id in {1,2,3,4,5}, GET /person/detail/{person_id}
  answers with status 200 and the confirmation that it exists; for every positive
  person_id outside the set it fails with status 404; a person_id that is zero or
  negative is rejected by validation.
\<close>

theorem show_person_by_id_cases:
  "(person_id \<in> {1, 2, 3, 4, 5} \<longrightarrow>
      show_person_by_id_route person_id = Returned HTTP_200_OK [(person_id, ''It exists!'')])
   \<and> (0 < person_id \<and> person_id \<notin> {1, 2, 3, 4, 5} \<longrightarrow>
      show_person_by_id_route person_id =
        HTTPException HTTP_404_NOT_FOUND ''This person doesn't exist!!!'')
   \<and> (person_id \<le> 0 \<longrightarrow> show_person_by_id_route person_id = ValidationError)"
  by (auto simp add: show_person_by_id_route_def show_person_by_id_def persons_def)

theorem show_person_by_id_cases_witness:
  "(3::int) \<in> {1, 2, 3, 4, 5}
   \<and> show_person_by_id_route 3 = Returned HTTP_200_OK [(3, ''It exists!'')]
   \<and> (0::int) < 6 \<and> (6::int) \<notin> {1, 2, 3, 4, 5}
   \<and> show_person_by_id_route 6 =
       HTTPException HTTP_404_NOT_FOUND ''This person doesn't exist!!!''
   \<and> (-1::int) \<le> 0
   \<and> show_person_by_id_route (-1) = ValidationError"
  using show_person_by_id_cases [of 3] show_person_by_id_cases [of 6]
    show_person_by_id_cases [of "-1"]
  by simp

text \<open>
  C9. For every valid request to PUT /person/{person_id}, the answer has status 200 and
  is the dictionary that starts with the id and continues with every field of the person
  and every field of the location; the person's password is in it, unchanged.
\<close>

theorem update_person_route_keeps_password:
  assumes "0 < person_id" and "valid_Person person" and "valid_Location location"
  shows "update_person_route person_id person location =
           Returned HTTP_200_OK
             ((''id'', PInt person_id) # Person_dict person @ Location_dict location)
         \<and> dict_get ((''id'', PInt person_id) # Person_dict person @ Location_dict location)
             ''password'' = Some (PStr (p_password person))"
  using assms
  by (simp add: update_person_route_def update_person_def Person_dict_def
      Location_dict_def dict_get_def)

theorem update_person_route_keeps_password_witness:
  "(0::int) < 15987
   \<and> valid_Person
       \<lparr>p_first_name = ''Alejandro'', p_last_name = ''Martinez'', p_age = 30,
        p_hair_color = Some black, p_is_married = Some True,
        p_password = ''HolaSoyAlejandro123''\<rparr>
   \<and> valid_Location \<lparr>l_city = ''Merida'', l_state = ''Yucatan'', l_country = mexico\<rparr>
   \<and> update_person_route 15987
       \<lparr>p_first_name = ''Alejandro'', p_last_name = ''Martinez'', p_age = 30,
        p_hair_color = Some black, p_is_married = Some True,
        p_password = ''HolaSoyAlejandro123''\<rparr>
       \<lparr>l_city = ''Merida'', l_state = ''Yucatan'', l_country = mexico\<rparr> =
     Returned HTTP_200_OK
       [(''id'', PInt 15987), (''first_name'', PStr ''Alejandro''),
        (''last_name'', PStr ''Martinez''), (''age'', PInt 30),
        (''hair_color'', PHairColor black), (''is_married'', PBool True),
        (''password'', PStr ''HolaSoyAlejandro123''), (''city'', PStr ''Merida''),
        (''state'', PStr ''Yucatan''), (''country'', PCountries mexico)]"
proof -
  have p: "valid_Person
       \<lparr>p_first_name = ''Alejandro'', p_last_name = ''Martinez'', p_age = 30,
        p_hair_color = Some black, p_is_married = Some True,
        p_password = ''HolaSoyAlejandro123''\<rparr>"
    by (simp add: valid_Person_def)
  have l: "valid_Location \<lparr>l_city = ''Merida'', l_state = ''Yucatan'', l_country = mexico\<rparr>"
    by (simp add: valid_Location_def)
  have i: "(0::int) < 15987" by simp
  show ?thesis
    using i p l update_person_route_keeps_password [OF i p l]
    by (simp add: Person_dict_def Location_dict_def opt_val_def)
qed

section \<open>What the scanner returns\<close>
















section \<open>The handlers that append\<close>




























lemma post_body_result: "post_body t f = (f1, Inr t1) \<Longrightarrow> t1 = t"
  unfolding post_body_def by (auto split: prod.splits sum.splits)

lemma post_result: "post files t = (files1, Inr t1) \<Longrightarrow> t1 = t"
  unfolding post_def with_open_def
  by (auto split: option.splits prod.splits dest: post_body_result)

lemma post_route_Returned:
  assumes "post_route m files (Some p) = (files1, Returned s t)"
  shows "t = Tweet_of_payload m p"
  using assms unfolding post_route_def
  by (auto split: if_splits prod.splits sum.splits dest: post_result)

text \<open>
  C6. The default of a tweet's creation timestamp is the one value of the schema, fixed
  when the module is loaded: a tweet whose payload has no created_at gets that value,
  whatever the request and whatever the store, so two such tweets have equal created_at,
  also in what POST /post returns.
\<close>

theorem created_at_default_is_frozen:
  assumes "in_created_at p1 = None" and "in_created_at p2 = None"
  shows "created_at (Tweet_of_payload m p1) = created_at (Tweet_of_payload m p2)
         \<and> created_at (Tweet_of_payload (load_module now) p1) = now
         \<and> (\<forall>files1 files2 g1 g2 s1 s2 t1 t2.
               post_route m files1 (Some p1) = (g1, Returned s1 t1) \<and>
               post_route m files2 (Some p2) = (g2, Returned s2 t2) \<longrightarrow>
               created_at t1 = created_at t2 \<and> created_at t1 = Tweet_created_at_default m)"
proof -
  have a: "created_at (Tweet_of_payload m p) = Tweet_created_at_default m"
    if "in_created_at p = None" for m p
    using that by (simp add: Tweet_of_payload_def)
  show ?thesis
    using a [OF assms(1)] a [OF assms(2)] 
    by (auto simp: load_module_def dest!: post_route_Returned)
qed



theorem created_at_default_is_frozen_witness:
  "in_created_at sample_payload = None
   \<and> in_created_at (sample_payload\<lparr>in_content := ''adios''\<rparr>) = None
   \<and> created_at (Tweet_of_payload (load_module sample_time) sample_payload) = sample_time
   \<and> created_at (Tweet_of_payload (load_module sample_time)
         (sample_payload\<lparr>in_content := ''adios''\<rparr>)) = sample_time"
proof -
  have a: "in_created_at sample_payload = None"
    by (simp add: sample_payload_def)
  have b: "in_created_at (sample_payload\<lparr>in_content := ''adios''\<rparr>) = None"
    by (simp add: sample_payload_def)
  show ?thesis
    using a b created_at_default_is_frozen [OF a b, of "load_module sample_time" sample_time]
    by metis
qed

text \<open>
  C7, as claimed: every stub endpoint answers with a not-implemented response. The
  handler of POST /login returns \<^verbatim>\<open>None\<close> under the declared status 200.
\<close>

theorem stub_routes_counterexample:
  "\<not> (\<forall>r \<in> set stub_routes. not_implemented (call_route r))"
proof
  assume "\<forall>r \<in> set stub_routes. not_implemented (call_route r)"
  then have "not_implemented (call_route (hd stub_routes))"
    by (simp add: stub_routes_def)
  then show False
    by (simp add: stub_routes_def call_route_def not_implemented_def login_def
        HTTP_200_OK_def HTTP_501_NOT_IMPLEMENTED_def)
qed

text \<open>
  C7, amended. The handler of every stub endpoint (login, show, delete and update a user,
  show, delete and update a tweet) has an empty body: it returns \<^verbatim>\<open>None\<close>, and
  its route declares the status 200 and a response model; none of the seven raises or
  returns a not-implemented (501) response.
\<close>

theorem stub_routes_return_None:
  "map call_route stub_routes = replicate 7 (Returned HTTP_200_OK PNone)
   \<and> map r_status_code stub_routes = replicate 7 200
   \<and> filter not_implemented (map call_route stub_routes) = []"
  by (simp add: stub_routes_def call_route_def not_implemented_def login_def show_a_user_def
      delete_a_user_def delete_a_user_2_def show_a_tweet_def delete_a_tweet_def
      update_a_tweet_def HTTP_200_OK_def HTTP_501_NOT_IMPLEMENTED_def eval_nat_numeral)





section \<open>Digits\<close>

declare str_nat.simps [simp del]

lemma lt10: "(m::nat) < 10 \<Longrightarrow> m = 0 \<or> m = 1 \<or> m = 2 \<or> m = 3 \<or> m = 4 \<or>
    m = 5 \<or> m = 6 \<or> m = 7 \<or> m = 8 \<or> m = 9"
  by arith

lemma dec_nth: "m < 10 \<Longrightarrow> of_char (''0123456789'' ! m) = (48 + m :: nat)"
  by (drule lt10) (elim disjE, simp_all)

lemma dec_digit_code: "of_char (dec_digit n) = (48 + n mod 10 :: nat)"
  unfolding dec_digit_def by (rule dec_nth) simp

lemma hex_nth_low: "m < 10 \<Longrightarrow> of_char (''0123456789abcdef'' ! m) = (48 + m :: nat)"
  by (drule lt10) (elim disjE, simp_all)

lemma lt16: "(m::nat) < 16 \<Longrightarrow> \<not> m < 10 \<Longrightarrow>
    m = 10 \<or> m = 11 \<or> m = 12 \<or> m = 13 \<or> m = 14 \<or> m = 15"
  by arith

lemma hex_nth_high:
  "m < 16 \<Longrightarrow> \<not> m < 10 \<Longrightarrow> of_char (''0123456789abcdef'' ! m) = (87 + m :: nat)"
  by (drule lt16, assumption) (elim disjE, simp_all)

lemma hex_digit_code:
  "of_char (hex_digit n) = (if n mod 16 < 10 then 48 + n mod 16 else 87 + n mod 16 :: nat)"
proof (cases "n mod 16 < 10")
  case True
  from hex_nth_low [OF True] True show ?thesis
    unfolding hex_digit_def by (simp only: if_True)
next
  case False
  have "n mod 16 < 16" by simp
  from hex_nth_high [OF this False] False show ?thesis
    unfolding hex_digit_def by (simp only: if_False)
qed

lemma hex_val_hex_digit: "hex_val (hex_digit n) = Some (n mod 16)"
proof -
  have "n mod 16 < 16" by simp
  then show ?thesis
    by (auto simp: hex_val_def hex_digit_code Let_def)
qed


lemma hex4_of_char:
  "hex4 (hex_digit (of_char c div 16 div 16 div 16)) (hex_digit (of_char c div 16 div 16))
     (hex_digit (of_char c div 16)) (hex_digit (of_char c)) = Some (of_char c)"
proof -
  have lt: "(of_char c :: nat) < 256" by simp
  then have a: "(of_char c :: nat) div 16 div 16 = 0"
    by (simp add: div_mult2_eq [symmetric])
  have "(of_char c :: nat) div 16 < 16"
    using lt by arith
  then have b: "(of_char c :: nat) div 16 mod 16 = of_char c div 16"
    by simp
  show ?thesis
    by (simp add: hex4_def hex_val_hex_digit a b)
qed

lemma hex_pad_4:
  "hex_pad 4 n =
     [hex_digit (n div 16 div 16 div 16), hex_digit (n div 16 div 16), hex_digit (n div 16),
      hex_digit n]"
proof -
  have e: "(4::nat) = Suc (Suc (Suc (Suc 0)))" by simp
  show ?thesis unfolding e by simp
qed


lemma scan_string_char: "scan_string (escape_char c @ t) = cons_result c (scan_string t)"
  by (simp add: escape_char_def DQUOTE_def BACKSLASH_def unescape_def hex_pad_4 hex4_of_char
      del: hex_pad.simps)

lemma scan_string_escaped:
  "scan_string (concat (map escape_char s) @ DQUOTE # rest) = Inr (s, rest)"
  by (induction s) (simp_all add: scan_string_char cons_result_def del: scan_string.simps,
      simp)


lemma is_digit_dec_digit: "is_digit (dec_digit n)"
  by (simp add: is_digit_def dec_digit_code)

lemma digit_val_dec_digit: "digit_val (dec_digit n) = n mod 10"
  by (simp add: digit_val_def dec_digit_code)

lemma dec_digit_zero: "dec_digit n = CHR ''0'' \<longleftrightarrow> n mod 10 = 0"
proof
  assume "dec_digit n = CHR ''0''"
  then have "(of_char (dec_digit n) :: nat) = of_char (CHR ''0'')" by simp
  then show "n mod 10 = 0" by (simp add: dec_digit_code)
next
  assume "n mod 10 = 0"
  then show "dec_digit n = CHR ''0''" by (simp add: dec_digit_def)
qed

lemma str_nat_digits: "list_all is_digit (str_nat n)"
proof (induction n rule: str_nat.induct)
  case (1 n)
  show ?case
  proof (cases "n < 10")
    case True
    then show ?thesis by (subst str_nat.simps) (simp add: is_digit_dec_digit)
  next
    case False
    with 1 show ?thesis by (subst str_nat.simps) (simp add: is_digit_dec_digit)
  qed
qed

lemma str_nat_value: "foldl (\<lambda>n c. 10 * n + digit_val c) 0 (str_nat n) = n"
proof (induction n rule: str_nat.induct)
  case (1 n)
  show ?case
  proof (cases "n < 10")
    case True
    then show ?thesis by (subst str_nat.simps) (simp add: digit_val_dec_digit)
  next
    case False
    with 1 show ?thesis by (subst str_nat.simps) (simp add: digit_val_dec_digit)
  qed
qed

lemma str_nat_head: "\<exists>c cs. str_nat n = c # cs \<and> is_digit c \<and> (c = CHR ''0'' \<longleftrightarrow> n = 0)"
proof (induction n rule: str_nat.induct)
  case (1 n)
  show ?case
  proof (cases "n < 10")
    case True
    then show ?thesis
      by (subst str_nat.simps) (simp add: is_digit_dec_digit dec_digit_zero)
  next
    case False
    from 1 [OF False] obtain c cs where "str_nat (n div 10) = c # cs" "is_digit c"
      "c = CHR ''0'' \<longleftrightarrow> n div 10 = 0"
      by auto
    with False show ?thesis
      by (subst str_nat.simps) simp
  qed
qed


lemma takeWhile_digits:
  assumes "list_all is_digit ds" and "rest = [] \<or> \<not> is_digit (hd rest)"
  shows "takeWhile is_digit (ds @ rest) = ds" and "dropWhile is_digit (ds @ rest) = rest"
proof -
  have r: "takeWhile is_digit rest = []" "dropWhile is_digit rest = rest"
    using assms(2) by (cases rest; simp)+
  show "takeWhile is_digit (ds @ rest) = ds" and "dropWhile is_digit (ds @ rest) = rest"
    using assms(1) r by (induction ds) simp_all
qed

lemma scan_digits_str_nat:
  assumes "rest = [] \<or> \<not> is_digit (hd rest)"
  shows "scan_digits (str_nat n @ rest) = (n, rest)"
  unfolding scan_digits_def
  by (simp only: takeWhile_digits [OF str_nat_digits assms] str_nat_value)

lemma scan_unsigned_str_nat:
  assumes "rest = [] \<or> \<not> is_digit (hd rest)"
  shows "scan_unsigned (str_nat n @ rest) = Some (n, rest)"
proof -
  obtain c cs where h: "str_nat n = c # cs" "is_digit c" "c = CHR ''0'' \<longleftrightarrow> n = 0"
    using str_nat_head [of n] by auto
  show ?thesis
  proof (cases "n = 0")
    case True
    then have "str_nat n = ''0''" by (simp add: str_nat.simps dec_digit_def)
    then show ?thesis using True by (simp add: scan_unsigned_def)
  next
    case False
    with h have "c \<noteq> CHR ''0''" by simp
    with h show ?thesis
      using scan_digits_str_nat [OF assms, of n]
      by (simp add: scan_unsigned_def del: str_nat.simps)
  qed
qed

lemma value_end_not_digit: "value_end rest \<Longrightarrow> rest = [] \<or> \<not> is_digit (hd rest)"
  by (auto simp: value_end_def is_digit_def split: list.splits)

lemma value_end_not_float: "value_end rest \<Longrightarrow> \<not> float_tail rest"
  by (auto simp: value_end_def float_tail_def split: list.splits)

lemma is_digit_not_minus: "is_digit c \<Longrightarrow> c \<noteq> CHR ''-''"
  by (auto simp: is_digit_def)

lemma scan_number_str_int:
  assumes "value_end rest"
  shows "scan_number (str_int i @ rest) = Inr (PInt i, rest)"
proof -
  note nd = value_end_not_digit [OF assms]
  note nf = value_end_not_float [OF assms]
  show ?thesis
  proof (cases "i < 0")
    case True
    then have s: "str_int i @ rest = CHR ''-'' # (str_nat (nat (- i)) @ rest)"
      by (simp add: str_int_def del: str_nat.simps)
    show ?thesis
      unfolding s scan_number_def
      using True nf
      by (simp add: scan_unsigned_str_nat [OF nd] Let_def del: str_nat.simps)
  next
    case False
    obtain c cs where h: "str_nat (nat i) = c # cs" "is_digit c"
      using str_nat_head [of "nat i"] by auto
    from False have s: "str_int i @ rest = str_nat (nat i) @ rest"
      by (simp add: str_int_def del: str_nat.simps)
    have m: "c \<noteq> CHR ''-''" using h(2) by (rule is_digit_not_minus)
    have u: "scan_unsigned (c # cs @ rest) = Some (nat i, rest)"
      using scan_unsigned_str_nat [OF nd, of "nat i"] h(1) by simp
    show ?thesis
      unfolding s scan_number_def
      using False nf m u
      by (simp add: h(1) Let_def del: str_nat.simps)
  qed
qed

section \<open>A text that was written is read back\<close>

declare scan_once.simps [simp del] scan_array.simps [simp del] scan_object.simps [simp del]
declare scan_string.simps [simp del]

lemma json_wf_PList: "json_wf (PList xs) = list_all json_wf xs"
  by (simp add: list.pred_map comp_def)

lemma json_wf_PDict:
  "json_wf (PDict kvs) = (distinct (map fst kvs) \<and> list_all (\<lambda>kv. json_wf (snd kv)) kvs)"
  by (simp add: list.pred_map comp_def)

lemma encode_PDict: "encode (PDict kvs) = ''{'' @ join_items (map encode_item kvs) @ ''}''"
proof -
  have "encode_item = (\<lambda>kv. encode_string (fst kv) @ '': '' @ encode (snd kv))"
    by (rule ext) (simp add: encode_item_def)
  then show ?thesis
    by (simp add: comp_def)
qed

lemma skip_ws_starts: "starts_value t \<Longrightarrow> skip_ws t = t"
  by (cases t) (simp_all add: starts_value_def skip_ws_def)

lemma skip_ws_space_starts: "starts_value t \<Longrightarrow> skip_ws (CHR '' '' # t) = t"
  by (cases t) (simp_all add: starts_value_def skip_ws_def is_ws_def)

lemma skip_ws_delim:
  "skip_ws (CHR '','' # t) = CHR '','' # t"
  "skip_ws (CHR '']'' # t) = CHR '']'' # t"
  "skip_ws (CHR ''}'' # t) = CHR ''}'' # t"
  "skip_ws (CHR '':'' # t) = CHR '':'' # t"
  "skip_ws (DQUOTE # t) = DQUOTE # t"
  by (simp_all add: skip_ws_def is_ws_def DQUOTE_def)

lemma skip_ws_space_quote: "skip_ws (CHR '' '' # DQUOTE # t) = DQUOTE # t"
  by (simp add: skip_ws_def is_ws_def DQUOTE_def)

lemma is_digit_starts: "is_digit c \<Longrightarrow> starts_value (c # t)"
  by (auto simp: is_digit_def starts_value_def is_ws_def)

lemma str_int_head:
  "\<exists>c cs. str_int i = c # cs \<and> (c = CHR ''-'' \<or> is_digit c)"
  using str_nat_head [of "nat i"] by (auto simp: str_int_def)

lemma encode_starts: "json_wf v \<Longrightarrow> starts_value (encode v @ t)"
proof (cases v)
  case (PInt i)
  obtain c cs where "str_int i = c # cs" "c = CHR ''-'' \<or> is_digit c"
    using str_int_head [of i] by auto
  with PInt show ?thesis
    by (auto simp: starts_value_def is_ws_def is_digit_def)
qed (auto simp: starts_value_def is_ws_def encode_string_def DQUOTE_def)

lemma encode_nonempty: "json_wf v \<Longrightarrow> 1 \<le> length (encode v)"
  using encode_starts [of v "[]"] by (cases "encode v") (simp_all add: starts_value_def)

lemma scan_once_string:
  "scan_once (Suc n) (encode_string s @ rest) = Inr (PStr s, rest)"
  by (simp add: scan_once.simps encode_string_def scan_string_escaped)

lemma scan_once_null: "scan_once (Suc n) (''null'' @ rest) = Inr (PNone, rest)"
  by (simp add: scan_once.simps DQUOTE_def)

lemma scan_once_true: "scan_once (Suc n) (''true'' @ rest) = Inr (PBool True, rest)"
  by (simp add: scan_once.simps DQUOTE_def)

lemma scan_once_false: "scan_once (Suc n) (''false'' @ rest) = Inr (PBool False, rest)"
  by (simp add: scan_once.simps DQUOTE_def)

lemma scan_once_number_head:
  assumes "c = CHR ''-'' \<or> is_digit c"
  shows "scan_once (Suc n) (c # t) = scan_number (c # t)"
proof -
  have "c \<noteq> DQUOTE" "c \<noteq> CHR ''{''" "c \<noteq> CHR ''[''" "c \<noteq> CHR ''n''" "c \<noteq> CHR ''t''"
    "c \<noteq> CHR ''f''"
    using assms by (auto simp: is_digit_def DQUOTE_def)
  then show ?thesis
    by (simp add: scan_once.simps)
qed

lemma scan_once_int:
  assumes "value_end rest"
  shows "scan_once (Suc n) (str_int i @ rest) = Inr (PInt i, rest)"
proof -
  obtain c cs where h: "str_int i = c # cs" "c = CHR ''-'' \<or> is_digit c"
    using str_int_head [of i] by auto
  have "scan_once (Suc n) (str_int i @ rest) = scan_number (str_int i @ rest)"
    using scan_once_number_head [OF h(2), of n "cs @ rest"] h(1) by simp
  then show ?thesis
    by (simp add: scan_number_str_int [OF assms])
qed

lemma value_end_delim:
  "value_end (CHR '','' # t)" "value_end (CHR '']'' # t)" "value_end (CHR ''}'' # t)"
  "value_end []"
  by (simp_all add: value_end_def)

lemma join_items_Cons:
  "join_items (a # y # ys) @ t = a @ CHR '','' # CHR '' '' # (join_items (y # ys) @ t)"
  by simp

lemma join_items_starts:
  assumes "json_wf y"
  shows "starts_value (join_items (map encode (y # ys)) @ t)"
proof (cases ys)
  case Nil
  then show ?thesis using encode_starts [OF assms] by simp
next
  case (Cons z zs)
  then show ?thesis
    using encode_starts [OF assms, of "CHR '','' # CHR '' '' # (join_items (map encode (z # zs)) @ t)"]
    by simp
qed

lemma scan_array_items:
  assumes "\<And>x n rest. x \<in> set xs \<Longrightarrow> value_end rest \<Longrightarrow> 2 * length (encode x) \<le> n \<Longrightarrow>
             scan_once n (encode x @ rest) = Inr (x, rest)"
    and "list_all json_wf xs" and "xs \<noteq> []"
    and "2 * length (join_items (map encode xs)) + 1 \<le> n"
  shows "scan_array n (join_items (map encode xs) @ CHR '']'' # rest) = Inr (xs, rest)"
  using assms
proof (induction xs arbitrary: n)
  case Nil
  then show ?case by simp
next
  case (Cons x xs)
  from Cons.prems(4) obtain m where n: "n = Suc m"
    by (cases n) simp_all
  show ?case
  proof (cases xs)
    case Nil
    have "2 * length (encode x) \<le> m"
      using Cons.prems(4) n Nil by simp
    then have so: "scan_once m (encode x @ CHR '']'' # rest) = Inr (x, CHR '']'' # rest)"
      by (intro Cons.prems(1)) (simp_all add: value_end_delim)
    show ?thesis
      by (simp add: Nil n scan_array.simps so skip_ws_delim)
  next
    case (Cons y ys)
    define T where "T = join_items (map encode (y # ys)) @ CHR '']'' # rest"
    have len: "length (join_items (map encode (x # y # ys))) =
        length (encode x) + 2 + length (join_items (map encode (y # ys)))"
      by simp
    have "2 * length (encode x) \<le> m"
      using Cons.prems(4) n Cons len by simp
    then have so: "scan_once m (encode x @ CHR '','' # CHR '' '' # T) =
        Inr (x, CHR '','' # CHR '' '' # T)"
      by (intro Cons.prems(1)) (simp_all add: value_end_delim)
    have wfy: "json_wf y" using Cons.prems(2) Cons by simp
    have st: "starts_value T"
      unfolding T_def by (rule join_items_starts [OF wfy])
    have ih: "scan_array m T = Inr (y # ys, rest)"
      unfolding T_def Cons [symmetric]
    proof (rule Cons.IH)
      show "scan_once n (encode z @ rest) = Inr (z, rest)"
        if "z \<in> set xs" "value_end rest" "2 * length (encode z) \<le> n" for z n rest
        using that by (intro Cons.prems(1)) simp_all
      show "list_all json_wf xs" using Cons.prems(2) by simp
      show "xs \<noteq> []" using Cons by simp
      show "2 * length (join_items (map encode xs)) + 1 \<le> m"
        using Cons.prems(4) n Cons len by simp
    qed
    have whole: "join_items (map encode (x # xs)) @ CHR '']'' # rest =
        encode x @ CHR '','' # CHR '' '' # T"
      unfolding T_def Cons by simp
    show ?thesis
      unfolding whole
      by (simp add: Cons n scan_array.simps so skip_ws_delim skip_ws_space_starts [OF st] ih)
  qed
qed

lemma encode_item_text:
  "encode_item (k, v) @ t =
     DQUOTE # concat (map escape_char k) @ DQUOTE # CHR '':'' # CHR '' '' # (encode v @ t)"
  by (simp add: encode_item_def encode_string_def)

lemma length_encode_item: "length (encode_item (k, v)) = length (encode_string k) + 2 + length (encode v)"
  by (simp add: encode_item_def)

lemma join_items_quote:
  "\<exists>r. join_items (map encode_item (kv # kvs)) @ t = DQUOTE # r"
  by (cases kv; cases kvs) (simp_all add: encode_item_def encode_string_def)

lemma scan_object_items:
  assumes "\<And>k v n rest. (k, v) \<in> set kvs \<Longrightarrow> value_end rest \<Longrightarrow> 2 * length (encode v) \<le> n \<Longrightarrow>
             scan_once n (encode v @ rest) = Inr (v, rest)"
    and "list_all (\<lambda>kv. json_wf (snd kv)) kvs" and "kvs \<noteq> []"
    and "2 * length (join_items (map encode_item kvs)) + 1 \<le> n"
  shows "scan_object n (tl (join_items (map encode_item kvs) @ CHR ''}'' # rest)) = Inr (kvs, rest)"
  using assms
proof (induction kvs arbitrary: n)
  case Nil
  then show ?case by simp
next
  case (Cons kv kvs)
  obtain k v where kv: "kv = (k, v)" by (cases kv)
  from Cons.prems(4) obtain m where n: "n = Suc m"
    by (cases n) simp_all
  have wfv: "json_wf v" using Cons.prems(2) kv by simp
  show ?case
  proof (cases kvs)
    case Nil
    have "2 * length (encode v) \<le> m"
      using Cons.prems(4) n Nil kv by (simp add: length_encode_item)
    then have so: "scan_once m (encode v @ CHR ''}'' # rest) = Inr (v, CHR ''}'' # rest)"
      by (intro Cons.prems(1) [of k]) (simp_all add: value_end_delim kv)
    have st: "starts_value (encode v @ CHR ''}'' # rest)"
      by (rule encode_starts [OF wfv])
    have whole: "tl (join_items (map encode_item (kv # kvs)) @ CHR ''}'' # rest) =
        concat (map escape_char k) @ DQUOTE # CHR '':'' # CHR '' '' # (encode v @ CHR ''}'' # rest)"
      using encode_item_text [of k v "CHR ''}'' # rest"] by (simp add: Nil kv)
    show ?thesis
      unfolding whole
      by (simp add: Nil kv n scan_object.simps scan_string_escaped skip_ws_delim
          skip_ws_space_starts [OF st] so)
  next
    case (Cons kv1 kvs1)
    define T where "T = join_items (map encode_item (kv1 # kvs1)) @ CHR ''}'' # rest"
    obtain r where T: "T = DQUOTE # r"
      unfolding T_def using join_items_quote [of kv1 kvs1 "CHR ''}'' # rest"] by auto
    have len: "length (join_items (map encode_item (kv # kv1 # kvs1))) =
        length (encode_item kv) + 2 + length (join_items (map encode_item (kv1 # kvs1)))"
      by simp
    have "2 * length (encode v) \<le> m"
      using Cons.prems(4) n Cons kv len by (simp add: length_encode_item)
    then have so: "scan_once m (encode v @ CHR '','' # CHR '' '' # T) =
        Inr (v, CHR '','' # CHR '' '' # T)"
      by (intro Cons.prems(1) [of k]) (simp_all add: value_end_delim kv)
    have st: "starts_value (encode v @ CHR '','' # CHR '' '' # T)"
      by (rule encode_starts [OF wfv])
    have ih: "scan_object m (tl T) = Inr (kv1 # kvs1, rest)"
      unfolding T_def Cons [symmetric]
    proof (rule Cons.IH)
      show "scan_once n (encode z @ rest) = Inr (z, rest)"
        if "(j, z) \<in> set kvs" "value_end rest" "2 * length (encode z) \<le> n" for j z n rest
        using that by (intro Cons.prems(1) [of j]) simp_all
      show "list_all (\<lambda>kv. json_wf (snd kv)) kvs" using Cons.prems(2) by simp
      show "kvs \<noteq> []" using Cons by simp
      show "2 * length (join_items (map encode_item kvs)) + 1 \<le> m"
        using Cons.prems(4) n Cons len by simp
    qed
    have whole: "tl (join_items (map encode_item (kv # kvs)) @ CHR ''}'' # rest) =
        concat (map escape_char k) @ DQUOTE # CHR '':'' # CHR '' '' #
          (encode v @ CHR '','' # CHR '' '' # T)"
      using encode_item_text [of k v "CHR '','' # CHR '' '' # T"]
      unfolding T_def Cons kv by simp
    show ?thesis
      unfolding whole
      by (simp add: Cons kv n scan_object.simps scan_string_escaped skip_ws_delim
          skip_ws_space_starts [OF st [unfolded T]] so [unfolded T] T skip_ws_space_quote
          ih [unfolded T, simplified])
  qed
qed

lemma foldl_dict_set_distinct:
  "distinct (map fst (d @ ps)) \<Longrightarrow>
   foldl (\<lambda>d kv. dict_set d (fst kv) (snd kv)) d ps = d @ ps"
proof (induction ps arbitrary: d)
  case Nil
  then show ?case by simp
next
  case (Cons p ps)
  have "dict_set d (fst p) (snd p) = d @ [p]"
    using Cons.prems by (intro dict_set_fresh [THEN trans]) auto
  then show ?case
    using Cons.IH [of "d @ [p]"] Cons.prems by simp
qed

lemma dict_of_pairs_distinct: "distinct (map fst kvs) \<Longrightarrow> dict_of_pairs kvs = kvs"
  using foldl_dict_set_distinct [of "[]" kvs] by (simp add: dict_of_pairs_def)

lemma fuel_Suc: "json_wf v \<Longrightarrow> 2 * length (encode v) \<le> n \<Longrightarrow> \<exists>m. n = Suc m"
  using encode_nonempty [of v] by (cases n) simp_all

lemma scan_once_list:
  assumes "\<And>x n rest. x \<in> set xs \<Longrightarrow> value_end rest \<Longrightarrow> 2 * length (encode x) \<le> n \<Longrightarrow>
             scan_once n (encode x @ rest) = Inr (x, rest)"
    and wf: "list_all json_wf xs"
    and fuel: "2 * length (encode (PList xs)) \<le> n"
  shows "scan_once n (encode (PList xs) @ rest) = Inr (PList xs, rest)"
proof -
  from fuel obtain m where n: "n = Suc m" by (cases n) simp_all
  show ?thesis
  proof (cases xs)
    case Nil
    then show ?thesis
      by (simp add: n scan_once.simps DQUOTE_def skip_ws_delim)
  next
    case (Cons y ys)
    define T where "T = join_items (map encode xs) @ CHR '']'' # rest"
    have st: "starts_value T"
      unfolding T_def Cons using wf Cons by (intro join_items_starts) simp
    then obtain c r where T: "T = c # r" "c \<noteq> CHR '']''"
      by (cases T) (simp_all add: starts_value_def)
    have arr: "scan_array m T = Inr (xs, rest)"
      unfolding T_def
    proof (rule scan_array_items)
      show "scan_once n (encode x @ rest) = Inr (x, rest)"
        if "x \<in> set xs" "value_end rest" "2 * length (encode x) \<le> n" for x n rest
        using that by (intro assms(1)) simp_all
      show "list_all json_wf xs" by (rule wf)
      show "xs \<noteq> []" using Cons by simp
      show "2 * length (join_items (map encode xs)) + 1 \<le> m"
        using fuel n by simp
    qed
    have whole: "encode (PList xs) @ rest = CHR ''['' # T"
      unfolding T_def by simp
    show ?thesis
      unfolding whole
      using arr T skip_ws_starts [OF st]
      by (simp add: n scan_once.simps DQUOTE_def)
  qed
qed

lemma scan_once_encode:
  "json_wf v \<Longrightarrow> value_end rest \<Longrightarrow> 2 * length (encode v) \<le> n \<Longrightarrow>
   scan_once n (encode v @ rest) = Inr (v, rest)"
proof (induction v arbitrary: n rest)
  case PNone
  then show ?case using fuel_Suc [of PNone n] scan_once_null by auto
next
  case (PBool b)
  then show ?case
    using fuel_Suc [of "PBool b" n] scan_once_true scan_once_false by (cases b) auto
next
  case (PInt i)
  then show ?case using fuel_Suc [of "PInt i" n] scan_once_int by auto
next
  case (PStr s)
  then show ?case using fuel_Suc [of "PStr s" n] scan_once_string by auto
next
  case (PList xs)
  have wf: "list_all json_wf xs"
    using PList.prems(1) json_wf_PList [of xs] by blast
  show ?case
  proof (rule scan_once_list [OF _ wf PList.prems(3)])
    show "scan_once n (encode x @ rest) = Inr (x, rest)"
      if "x \<in> set xs" "value_end rest" "2 * length (encode x) \<le> n" for x n rest
      using that wf by (intro PList.IH) (simp_all add: list_all_iff)
  qed
next
  case (PDict kvs)
  from fuel_Suc [OF PDict.prems(1,3)] obtain m where n: "n = Suc m" by auto
  have wf: "list_all (\<lambda>kv. json_wf (snd kv)) kvs" and dist: "distinct (map fst kvs)"
    using PDict.prems(1) json_wf_PDict [of kvs] by blast+
  show ?case
  proof (cases kvs)
    case Nil
    then show ?thesis
      by (simp add: n scan_once.simps DQUOTE_def skip_ws_delim del: encode.simps
          add: encode_PDict dict_of_pairs_def)
  next
    case (Cons kv kvs1)
    define T where "T = join_items (map encode_item kvs) @ CHR ''}'' # rest"
    obtain r where T: "T = DQUOTE # r"
      unfolding T_def Cons using join_items_quote [of kv kvs1 "CHR ''}'' # rest"] by auto
    have obj: "scan_object m (tl T) = Inr (kvs, rest)"
      unfolding T_def
    proof (rule scan_object_items)
      show "scan_once n (encode v @ rest) = Inr (v, rest)"
        if "(k, v) \<in> set kvs" "value_end rest" "2 * length (encode v) \<le> n" for k v n rest
      proof (rule PDict.IH)
        show "(k, v) \<in> set kvs" by (rule that(1))
        show "v \<in> Basic_BNFs.snds (k, v)" by simp
        show "json_wf v" using wf that(1) by (auto simp: list_all_iff)
        show "value_end rest" by (rule that(2))
        show "2 * length (encode v) \<le> n" by (rule that(3))
      qed
      show "list_all (\<lambda>kv. json_wf (snd kv)) kvs" by (rule wf)
      show "kvs \<noteq> []" using Cons by simp
      show "2 * length (join_items (map encode_item kvs)) + 1 \<le> m"
        using PDict.prems(3) n by (simp add: encode_PDict del: encode.simps)
    qed
    have whole: "encode (PDict kvs) @ rest = CHR ''{'' # T"
      unfolding T_def by (simp add: encode_PDict del: encode.simps)
    have q: "DQUOTE \<noteq> CHR ''}''" "CHR ''{'' \<noteq> DQUOTE"
      by (simp_all add: DQUOTE_def)
    show ?thesis
      unfolding whole
      using obj [unfolded T, simplified] q
      by (simp add: n scan_once.simps T skip_ws_delim dict_of_pairs_distinct [OF dist])
  qed
qed simp_all

lemma json_loads_encode:
  assumes "json_wf v"
  shows "json_loads (encode v) = Inr v"
proof -
  have st: "skip_ws (encode v) = encode v"
    using encode_starts [OF assms, of "[]"] by (simp add: skip_ws_starts)
  have "scan_once (2 * length (encode v) + 2) (encode v @ []) = Inr (v, [])"
    by (rule scan_once_encode [OF assms]) (simp_all add: value_end_delim)
  moreover have "skip_ws [] = []"
    by (simp add: skip_ws_def)
  ultimately show ?thesis
    by (simp add: json_loads_def st)
qed











lemma stored_user_wf: "json_wf (PDict (stored_user u))"
  by (simp add: stored_user_def stored_author_def)


section \<open>The bound of the scanner\<close>

lemma cons_result_Inr:
  "cons_result c q = Inr (x, r) \<Longrightarrow> \<exists>y. q = Inr (y, r)"
  by (auto simp: cons_result_def split: sum.splits)

lemma scan_string_shorter: "scan_string s = Inr (x, r) \<Longrightarrow> length r < length s"
proof (induction s arbitrary: x r rule: length_induct)
  case (1 s)
  have ih: "length r1 < length t" if "length t < length s" "scan_string t = Inr (y, r1)" for t y r1
    using 1(1) that by blast
  show ?case
  proof (cases s)
    case Nil
    with 1(2) show ?thesis by (simp add: scan_string.simps)
  next
    case (Cons c t)
    from 1(2) have
      "r = t \<or> (\<exists>y. scan_string t = Inr (y, r)) \<or>
       (\<exists>e t1 y. t = e # t1 \<and> scan_string t1 = Inr (y, r)) \<or>
       (\<exists>e h1 h2 h3 h4 t2 y. t = e # h1 # h2 # h3 # h4 # t2 \<and> scan_string t2 = Inr (y, r))"
      unfolding Cons
      by (subst (asm) scan_string.simps)
        (auto split: if_splits list.splits option.splits dest!: cons_result_Inr)
    then show ?thesis
      unfolding Cons by (auto dest!: ih [rotated] simp: Cons)
  qed
qed

lemma skip_ws_length: "length (skip_ws s) \<le> length s"
  by (simp add: skip_ws_def length_dropWhile_le)

lemma scan_unsigned_shorter: "scan_unsigned s = Some (n, r) \<Longrightarrow> length r < length s"
proof (cases s)
  case Nil
  then show "scan_unsigned s = Some (n, r) \<Longrightarrow> length r < length s"
    by (simp add: scan_unsigned_def)
next
  case (Cons c t)
  have "length (dropWhile is_digit t) \<le> length t"
    by (rule length_dropWhile_le)
  then show "scan_unsigned s = Some (n, r) \<Longrightarrow> length r < length s"
    unfolding Cons
    by (auto simp: scan_unsigned_def scan_digits_def split: if_splits)
qed

lemma scan_number_shorter: "scan_number s = Inr (v, r) \<Longrightarrow> length r < length s"
proof -
  assume a: "scan_number s = Inr (v, r)"
  then have "\<exists>n. scan_unsigned s = Some (n, r) \<or> (s \<noteq> [] \<and> scan_unsigned (tl s) = Some (n, r))"
    by (auto simp: scan_number_def Let_def split: option.splits if_splits list.splits)
  then show ?thesis
    by (cases s) (auto dest!: scan_unsigned_shorter)
qed

lemma skip_ws_Cons_shorter: "skip_ws s = c # t \<Longrightarrow> length t < length s"
  using skip_ws_length [of s] by simp

lemma scan_once_Suc_rest:
  assumes "scan_once (Suc n) s = Inr (v, r)"
  shows "(\<exists>c t. s = c # t \<and>
            ((\<exists>x. scan_string t = Inr (x, r)) \<or> (\<exists>c1. skip_ws t = c1 # r) \<or>
             (\<exists>c1 r1 ps. skip_ws t = c1 # r1 \<and> scan_object n r1 = Inr (ps, r)) \<or>
             (\<exists>xs. scan_array n (skip_ws t) = Inr (xs, r)))) \<or>
         (take 4 s = ''null'' \<and> r = drop 4 s) \<or> (take 4 s = ''true'' \<and> r = drop 4 s) \<or>
         (take 5 s = ''false'' \<and> r = drop 5 s) \<or> scan_number s = Inr (v, r)"
  using assms
  by (subst (asm) scan_once.simps)
    (auto split: list.splits if_splits sum.splits prod.splits)

lemma scan_array_Suc_rest:
  assumes "scan_array (Suc n) s = Inr (xs, r)"
  shows "\<exists>x rest c t. scan_once n s = Inr (x, rest) \<and> skip_ws rest = c # t \<and>
           (r = t \<or> (\<exists>ys. scan_array n (skip_ws t) = Inr (ys, r)))"
  using assms
  by (subst (asm) scan_array.simps)
    (auto split: list.splits if_splits sum.splits prod.splits)

lemma scan_object_Suc_rest:
  assumes "scan_object (Suc n) s = Inr (ps, r)"
  shows "\<exists>k rest c t v rest1 c1 r1.
           scan_string s = Inr (k, rest) \<and> skip_ws rest = c # t \<and>
           scan_once n (skip_ws t) = Inr (v, rest1) \<and> skip_ws rest1 = c1 # r1 \<and>
           (r = r1 \<or> (\<exists>c2 r2 qs. skip_ws r1 = c2 # r2 \<and> scan_object n r2 = Inr (qs, r)))"
  using assms
  by (subst (asm) scan_object.simps)
    (auto split: list.splits if_splits sum.splits prod.splits)

lemma scan_shorter_all:
  "(\<forall>s v r. scan_once n s = Inr (v, r) \<longrightarrow> length r < length s) \<and>
   (\<forall>s xs r. scan_array n s = Inr (xs, r) \<longrightarrow> length r < length s) \<and>
   (\<forall>s ps r. scan_object n s = Inr (ps, r) \<longrightarrow> length r < length s)"
proof (induction n)
  case 0
  show ?case by (simp add: scan_once.simps scan_array.simps scan_object.simps)
next
  case (Suc n)
  from Suc have ih1: "\<And>s v r. scan_once n s = Inr (v, r) \<Longrightarrow> length r < length s"
    by blast
  from Suc have ih2: "\<And>s xs r. scan_array n s = Inr (xs, r) \<Longrightarrow> length r < length s"
    by blast
  from Suc have ih3: "\<And>s ps r. scan_object n s = Inr (ps, r) \<Longrightarrow> length r < length s"
    by blast
  have once: "length r < length s" if "scan_once (Suc n) s = Inr (v, r)" for s v r
  proof -
    have lit: "length (drop k s) < length s" if "take k s = w" "w \<noteq> []" "0 < k" for k w
      using that by (cases s) auto
    from scan_once_Suc_rest [OF that] show ?thesis
    proof (elim disjE exE conjE)
      fix c t x assume "s = c # t" "scan_string t = Inr (x, r)"
      then show ?thesis using scan_string_shorter [of t x r] by simp
    next
      fix c t c1 assume "s = c # t" "skip_ws t = c1 # r"
      then show ?thesis using skip_ws_Cons_shorter [of t c1 r] by simp
    next
      fix c t c1 r1 ps assume "s = c # t" "skip_ws t = c1 # r1" "scan_object n r1 = Inr (ps, r)"
      then show ?thesis using skip_ws_Cons_shorter [of t c1 r1] ih3 [of r1 ps r] by simp
    next
      fix c t xs assume "s = c # t" "scan_array n (skip_ws t) = Inr (xs, r)"
      then show ?thesis using skip_ws_length [of t] ih2 [of "skip_ws t" xs r] by simp
    next
      assume "take 4 s = ''null''" "r = drop 4 s"
      then show ?thesis using lit [of 4 "''null''"] by simp
    next
      assume "take 4 s = ''true''" "r = drop 4 s"
      then show ?thesis using lit [of 4 "''true''"] by simp
    next
      assume "take 5 s = ''false''" "r = drop 5 s"
      then show ?thesis using lit [of 5 "''false''"] by simp
    next
      assume "scan_number s = Inr (v, r)"
      then show ?thesis by (rule scan_number_shorter)
    qed
  qed
  have arr: "length r < length s" if "scan_array (Suc n) s = Inr (xs, r)" for s xs r
  proof -
    from scan_array_Suc_rest [OF that] obtain x rest c t where
      h: "scan_once n s = Inr (x, rest)" "skip_ws rest = c # t"
        "r = t \<or> (\<exists>ys. scan_array n (skip_ws t) = Inr (ys, r))"
      by blast
    have "length t < length s"
      using ih1 [OF h(1)] skip_ws_Cons_shorter [OF h(2)] by simp
    with h(3) show ?thesis
      using skip_ws_length [of t] by (auto dest!: ih2)
  qed
  have obj: "length r < length s" if "scan_object (Suc n) s = Inr (ps, r)" for s ps r
  proof -
    from scan_object_Suc_rest [OF that] obtain k rest c t v rest1 c1 r1 where
      h: "scan_string s = Inr (k, rest)" "skip_ws rest = c # t"
        "scan_once n (skip_ws t) = Inr (v, rest1)" "skip_ws rest1 = c1 # r1"
        "r = r1 \<or> (\<exists>c2 r2 qs. skip_ws r1 = c2 # r2 \<and> scan_object n r2 = Inr (qs, r))"
      by blast
    have "length r1 < length s"
      using scan_string_shorter [OF h(1)] skip_ws_Cons_shorter [OF h(2)] skip_ws_length [of t]
        ih1 [OF h(3)] skip_ws_Cons_shorter [OF h(4)]
      by simp
    with h(5) show ?thesis
      by (auto dest!: ih3 skip_ws_Cons_shorter)
  qed
  show ?case using once arr obj by blast
qed

lemma scan_once_shorter: "scan_once n s = Inr (v, r) \<Longrightarrow> length r < length s"
  using scan_shorter_all [of n] by blast

lemma scan_fuel_all:
  "\<forall>m\<ge>n.
     (\<forall>s. 2 * length s + 1 \<le> n \<longrightarrow> scan_once m s = scan_once n s) \<and>
     (\<forall>s. 2 * length s + 2 \<le> n \<longrightarrow> scan_array m s = scan_array n s) \<and>
     (\<forall>s. 2 * length s + 2 \<le> n \<longrightarrow> scan_object m s = scan_object n s)"
proof (induction n)
  case 0
  show ?case by simp
next
  case (Suc n)
  show ?case
  proof (intro allI impI)
    fix m assume "Suc n \<le> m"
    then obtain k where m: "m = Suc k" and k: "n \<le> k"
      by (cases m) simp_all
    from Suc k have ih1: "\<And>s. 2 * length s + 1 \<le> n \<Longrightarrow> scan_once k s = scan_once n s"
      by blast
    from Suc k have ih2: "\<And>s. 2 * length s + 2 \<le> n \<Longrightarrow> scan_array k s = scan_array n s"
      by blast
    from Suc k have ih3: "\<And>s. 2 * length s + 2 \<le> n \<Longrightarrow> scan_object k s = scan_object n s"
      by blast
    have once: "scan_once (Suc k) s = scan_once (Suc n) s" if b: "2 * length s + 1 \<le> Suc n" for s
    proof (cases s)
      case Nil
      then show ?thesis by (simp add: scan_once.simps)
    next
      case (Cons c t)
      have o: "scan_object k r1 = scan_object n r1" if "skip_ws t = c1 # r1" for c1 r1
        using skip_ws_Cons_shorter [OF that] b Cons by (intro ih3) simp
      have a: "scan_array k (c1 # r1) = scan_array n (c1 # r1)" if "skip_ws t = c1 # r1" for c1 r1
        using skip_ws_length [of t] that b Cons by (intro ih2) simp
      show ?thesis
        unfolding Cons
        by (simp add: scan_once.simps o a split: list.splits)
    qed
    have arr: "scan_array (Suc k) s = scan_array (Suc n) s" if b: "2 * length s + 2 \<le> Suc n" for s
    proof -
      have f: "scan_once k s = scan_once n s"
        using b by (intro ih1) simp
      have a: "scan_array k (skip_ws r) = scan_array n (skip_ws r)"
        if "scan_once n s = Inr (x, rest)" "skip_ws rest = c # r" for x rest c r
        using scan_once_shorter [OF that(1)] skip_ws_Cons_shorter [OF that(2)]
          skip_ws_length [of r] b
        by (intro ih2) simp
      show ?thesis
        by (simp add: scan_array.simps f a split: sum.splits prod.splits list.splits)
    qed
    have obj: "scan_object (Suc k) s = scan_object (Suc n) s" if b: "2 * length s + 2 \<le> Suc n" for s
    proof -
      have f: "scan_once k (skip_ws r) = scan_once n (skip_ws r)"
        if "scan_string s = Inr (key, rest)" "skip_ws rest = c # r" for key rest c r
        using scan_string_shorter [OF that(1)] skip_ws_Cons_shorter [OF that(2)]
          skip_ws_length [of r] b
        by (intro ih1) simp
      have o: "scan_object k r2 = scan_object n r2"
        if "scan_string s = Inr (key, rest)" "skip_ws rest = c # r"
          "scan_once n (skip_ws r) = Inr (v, rest1)" "skip_ws rest1 = c1 # r1"
          "skip_ws r1 = c2 # r2" for key rest c r v rest1 c1 r1 c2 r2
        using scan_string_shorter [OF that(1)] skip_ws_Cons_shorter [OF that(2)]
          skip_ws_length [of r] scan_once_shorter [OF that(3)]
          skip_ws_Cons_shorter [OF that(4)] skip_ws_Cons_shorter [OF that(5)] b
        by (intro ih3) simp
      show ?thesis
        by (simp add: scan_object.simps f o split: sum.splits prod.splits list.splits)
    qed
    show "(\<forall>s. 2 * length s + 1 \<le> Suc n \<longrightarrow> scan_once m s = scan_once (Suc n) s) \<and>
          (\<forall>s. 2 * length s + 2 \<le> Suc n \<longrightarrow> scan_array m s = scan_array (Suc n) s) \<and>
          (\<forall>s. 2 * length s + 2 \<le> Suc n \<longrightarrow> scan_object m s = scan_object (Suc n) s)"
      unfolding m using once arr obj by blast
  qed
qed

text \<open>
  The bound of \<open>json_loads\<close> is never reached: with any larger bound the scanner
  returns the same.
\<close>

lemma json_loads_fuel:
  assumes "2 * length s + 2 \<le> n"
  shows "scan_once n (skip_ws s) = scan_once (2 * length s + 2) (skip_ws s)"
proof -
  have "2 * length (skip_ws s) + 1 \<le> 2 * length s + 2"
    using skip_ws_length [of s] by simp
  with assms scan_fuel_all [of "2 * length s + 2"] show ?thesis
    by blast
qed

section \<open>Posting a tweet and listing the tweets\<close>



lemma length_join_items_snoc: "length (join_items ss) \<le> length (join_items (ss @ [s]))"
  by (induction ss rule: join_items.induct) simp_all

lemma written_store_leaves_nothing:
  "drop (length (encode (PList (rs @ [x])))) (encode (PList rs)) = []"
  using length_join_items_snoc [of "map encode rs" "encode x"] by simp




end
